(* ===== verification/Prelude.thy ===== *)
theory Prelude
  imports Main "HOL-Library.Word" "HOL-Library.Monad_Syntax"
begin

text \<open>
  Shared vocabulary of the development: the C integer types at their widths, byte-addressed
  reads of a C object (a read outside the object is \<open>None\<close>, never an arbitrary value),
  and the generic facts on options, lists and words that the component theories use.
\<close>

unbundle bit_operations_syntax

section \<open>C types\<close>

type_synonym u8 = "8 word"
type_synonym u32 = "32 word"
type_synonym u64 = "64 word"

text \<open>
  \<open>int\<close> values of the C code are 32-bit words read with \<open>sint\<close>; \<open>long\<close> values are
  64-bit words (the LP64 targets of the repository).
\<close>

type_synonym cint = "32 word"
type_synonym clong = "64 word"

abbreviation is_neg :: "'a::len word \<Rightarrow> bool" where
  "is_neg w \<equiv> w <s 0"

section \<open>Bounded reads\<close>

text \<open>A read of element \<open>i\<close> of a C array held as a list: defined only inside the array.\<close>

definition read_at :: "'a list \<Rightarrow> int \<Rightarrow> 'a option" where
  "read_at xs i = (if 0 \<le> i \<and> i < int (length xs) then Some (xs ! nat i) else None)"

named_theorems mem_simps

lemma read_at_inside [mem_simps]: "i < length xs \<Longrightarrow> read_at xs (int i) = Some (xs ! i)"
  by (simp add: read_at_def)

lemma read_at_drop: "0 \<le> i \<Longrightarrow> read_at (drop k xs) i = read_at xs (int k + i)"
  by (auto simp: read_at_def nat_add_distrib add.commute)

lemma read_at_some_iff: "(\<exists>x. read_at xs i = Some x) \<longleftrightarrow> 0 \<le> i \<and> i < int (length xs)"
  by (simp add: read_at_def)

section \<open>Generic lemmas on lists and words\<close>

lemma funpow_id_bij:
  assumes "f ^^ n = id" and "0 < n"
  shows "bij f"
proof (rule o_bij [where g = "f ^^ (n - 1)"])
  have n: "n = Suc (n - 1)" using assms(2) by simp
  show "(f ^^ (n - 1)) \<circ> f = id"
    using assms(1) by (subst (asm) n) (simp only: funpow_Suc_right)
  show "f \<circ> (f ^^ (n - 1)) = id"
    using assms(1) by (subst (asm) n) simp
qed

lemma word_rotl_xor: "word_rotl n (x XOR y) = word_rotl n x XOR word_rotl n y"
  by (rule word_rot_logs)

lemma xor_left_inj: "bij (\<lambda>x. x XOR (c :: 'a::len word))"
proof (rule o_bij)
  show "(\<lambda>x. x XOR c) \<circ> (\<lambda>x. x XOR c) = id" by (simp add: fun_eq_iff xor.assoc)
  show "(\<lambda>x. x XOR c) \<circ> (\<lambda>x. x XOR c) = id" by (simp add: fun_eq_iff xor.assoc)
qed

text \<open>A \<open>long\<close> that fits in \<open>int\<close> survives the conversion.\<close>

lemma sint_ucast_small:
  assumes "unat n < 2 ^ 31"
  shows "sint (ucast n :: cint) = int (unat (n :: u64))"
proof -
  have "nat (uint n) < nat (2 ^ 31)" using assms by simp
  then have "uint n < 2 ^ 31" using nat_less_eq_zless [OF uint_ge_0] by blast
  moreover have "- (2 ^ 31) \<le> uint n" by (rule order_trans [OF _ uint_ge_0]) simp
  ultimately show ?thesis
    by (simp add: sint_uint unsigned_ucast_eq take_bit_int_eq_self signed_take_bit_int_eq_self [of 31 "uint n"])
qed

end
