(* ===== verification/ChibiHash.thy ===== *)
theory ChibiHash
  imports Prelude
begin

text \<open>
  The 64-bit hash of \<open>hashing/chibihash64.h\<close>. The key is a list of bytes and every read
  goes through \<open>read_at\<close>, so a read outside the key makes the hash \<open>None\<close>. The four lanes
  \<open>h[4]\<close> are a list of four 64-bit words, the pointer \<open>p\<close> and the remaining length
  \<open>l\<close> are integers. The file holds the loops of the C function, a reference that folds
  the key in blocks without any pointer, their equality, and the bijectivity of the final mix.
\<close>

unbundle bit_operations_syntax

section \<open>The code\<close>

definition chibihash64__load32le :: "u8 list \<Rightarrow> int \<Rightarrow> u64 option" where
  "chibihash64__load32le m p = do {
     b0 \<leftarrow> read_at m p; b1 \<leftarrow> read_at m (p + 1); b2 \<leftarrow> read_at m (p + 2); b3 \<leftarrow> read_at m (p + 3);
     Some (push_bit 0 (ucast b0) OR push_bit 8 (ucast b1)
           OR push_bit 16 (ucast b2) OR push_bit 24 (ucast b3)) }"

definition chibihash64__load64le :: "u8 list \<Rightarrow> int \<Rightarrow> u64 option" where
  "chibihash64__load64le m p = do {
     lo \<leftarrow> chibihash64__load32le m p;
     hi \<leftarrow> chibihash64__load32le m (p + 4);
     Some (lo OR push_bit 32 hi) }"

definition chibihash64__rotl :: "u64 \<Rightarrow> int \<Rightarrow> u64" where
  "chibihash64__rotl x n = push_bit (nat n) x OR drop_bit (nat ((- n) AND 63)) x"

definition chibi_K :: u64 where
  "chibi_K = 0x2B7E151628AED2A7"

function stripe_loop :: "u8 list \<Rightarrow> nat \<Rightarrow> int \<Rightarrow> u64 list \<Rightarrow> (int \<times> u64 list) option" where
  "stripe_loop m i p h =
     (if i < 4 then do {
        stripe \<leftarrow> chibihash64__load64le m p;
        let h = h[i := (stripe + h ! i) * chibi_K];
        let j = (i + 1) AND 3;
        let h = h[j := h ! j + chibihash64__rotl stripe 27];
        stripe_loop m (i + 1) (p + 8) h }
      else Some (p, h))"
  by pat_completeness auto
termination
  by (relation "measure (\<lambda>(m, i, p, h). 4 - i)") auto

declare stripe_loop.simps [simp del]

function bulk_loop :: "u8 list \<Rightarrow> int \<Rightarrow> int \<Rightarrow> u64 list \<Rightarrow> (int \<times> int \<times> u64 list) option" where
  "bulk_loop m l p h =
     (if l \<ge> 32 then do {
        (p, h) \<leftarrow> stripe_loop m 0 p h;
        bulk_loop m (l - 32) p h }
      else Some (l, p, h))"
  by pat_completeness auto
termination
  by (relation "measure (\<lambda>(m, l, p, h). nat l)") auto

declare bulk_loop.simps [simp del]

function word_loop :: "u8 list \<Rightarrow> int \<Rightarrow> int \<Rightarrow> u64 list \<Rightarrow> (int \<times> int \<times> u64 list) option" where
  "word_loop m l p h =
     (if l \<ge> 8 then do {
        a \<leftarrow> chibihash64__load32le m (p + 0);
        let h = h[0 := h ! 0 XOR a];
        let h = h[0 := h ! 0 * chibi_K];
        b \<leftarrow> chibihash64__load32le m (p + 4);
        let h = h[1 := h ! 1 XOR b];
        let h = h[1 := h ! 1 * chibi_K];
        word_loop m (l - 8) (p + 8) h }
      else Some (l, p, h))"
  by pat_completeness auto
termination
  by (relation "measure (\<lambda>(m, l, p, h). nat l)") auto

declare word_loop.simps [simp del]

definition tail_bytes :: "u8 list \<Rightarrow> int \<Rightarrow> int \<Rightarrow> u64 list \<Rightarrow> u64 list option" where
  "tail_bytes m l p h =
     (if l \<ge> 4 then do {
        a \<leftarrow> chibihash64__load32le m p;
        b \<leftarrow> chibihash64__load32le m (p + l - 4);
        Some (h[2 := h ! 2 XOR a, 3 := h ! 3 XOR b]) }
      else if l > 0 then do {
        a \<leftarrow> read_at m p;
        b \<leftarrow> read_at m (p + l div 2);
        c \<leftarrow> read_at m (p + (l - 1));
        Some (h[2 := h ! 2 XOR ucast a, 3 := h ! 3 XOR (ucast b OR push_bit 8 (ucast c))]) }
      else Some h)"

definition mix_lanes :: "u64 list \<Rightarrow> u64" where
  "mix_lanes h =
     (let h0 = h ! 0 + (chibihash64__rotl (h ! 2 * chibi_K) 31 XOR drop_bit 31 (h ! 2));
          h1 = h ! 1 + (chibihash64__rotl (h ! 3 * chibi_K) 31 XOR drop_bit 31 (h ! 3));
          h0 = h0 * chibi_K;
          h0 = h0 XOR drop_bit 31 h0
      in h1 + h0)"

definition avalanche :: "u64 \<Rightarrow> u64" where
  "avalanche x =
     (let x = x XOR (chibihash64__rotl x 15 XOR chibihash64__rotl x 42);
          x = x * chibi_K
      in x XOR (chibihash64__rotl x 13 XOR chibihash64__rotl x 31))"

definition chibi_finish :: "int \<Rightarrow> u64 \<Rightarrow> u64 \<Rightarrow> u64" where
  "chibi_finish len seed h1 =
     (let x = word_of_int len * chibi_K;
          x = x XOR chibihash64__rotl x 29;
          x = x + seed;
          x = x XOR h1
      in avalanche x)"

definition init_lanes :: "u64 \<Rightarrow> u64 list" where
  "init_lanes seed =
     (let seed2 = chibihash64__rotl (seed - chibi_K) 15 + chibihash64__rotl (seed - chibi_K) 47
      in [seed, seed + chibi_K, seed2, seed2 + (chibi_K * chibi_K XOR chibi_K)])"

definition chibihash64 :: "u8 list \<Rightarrow> int \<Rightarrow> u64 \<Rightarrow> u64 option" where
  "chibihash64 m len seed = do {
     (l, p, h) \<leftarrow> bulk_loop m len 0 (init_lanes seed);
     (l, p, h) \<leftarrow> word_loop m l p h;
     h \<leftarrow> tail_bytes m l p h;
     Some (chibi_finish len seed (mix_lanes h)) }"


section \<open>Rotations\<close>

lemma length_init_lanes [simp]: "length (init_lanes seed) = 4"
  by (simp add: init_lanes_def Let_def)

lemma and_63_int: "(n :: int) AND 63 = n mod 64"
  using take_bit_eq_mask [of 6 n] by (simp add: take_bit_eq_mod mask_eq_exp_minus_1)

lemma word_rotl_64 [simp]: "word_rotl (64 * n) (x :: u64) = x"
  by (intro bit_word_eqI) (simp add: bit_simps)

lemma word_rotl_0 [simp]: "word_rotl 0 (x :: u64) = x"
  using word_rotl_64 [of 0 x] by simp

lemma word_rotl_word_rotl: "word_rotl a (word_rotl b x) = word_rotl (a + b) (x :: u64)"
proof -
  have "word_rotr b (word_rotr a (word_rotl (a + b) x)) = x"
    by (simp add: word_rotr_word_rotr_eq add.commute)
  then show ?thesis by (metis word_rot_rl)
qed

lemma len64: "LENGTH(64) = 64"
  by simp

lemma rot_index:
  fixes j k n :: nat
  assumes "j < n" and "k \<le> n"
  shows "(j + (n - k)) mod n = (if k \<le> j then j - k else n - k + j)"
proof (cases "k \<le> j")
  case True
  then have "j + (n - k) = n + (j - k)" using assms by arith
  then have "(j + (n - k)) mod n = (j - k) mod n" by (simp only: mod_add_self1)
  then show ?thesis using True assms by simp
qed (use assms in auto)

lemma shifts_eq_rotl:
  assumes "0 < k" and "k < 64"
  shows "push_bit k x OR drop_bit (64 - k) x = word_rotl k (x :: u64)"
proof (rule bit_word_eqI)
  fix j
  assume "j < LENGTH(64)"
  then have j: "j < 64" by simp
  have hi: "\<not> bit x i" if "64 \<le> i" for i
    using that bit_imp_le_length [of x i] by auto
  have rot: "bit (word_rotl k x) j = bit x ((j + (64 - k)) mod 64)"
    using j assms by (simp only: bit_word_rotl_iff len64 mod_less simp_thms)
  have lhs: "bit (push_bit k x OR drop_bit (64 - k) x) j
             \<longleftrightarrow> k \<le> j \<and> bit x (j - k) \<or> bit x (64 - k + j)"
    using j by (auto simp: bit_or_iff bit_push_bit_iff bit_drop_bit_eq)
  show "bit (push_bit k x OR drop_bit (64 - k) x) j = bit (word_rotl k x) j"
    unfolding rot lhs rot_index [OF j order.strict_implies_order [OF assms(2)]]
    using hi [of "64 - k + j"] assms by (cases "k \<le> j") auto
qed

lemma rotl_eq_word_rotl:
  assumes "0 \<le> n" and "n < 64"
  shows "chibihash64__rotl x n = word_rotl (nat n) x"
proof (cases "n = 0")
  case True
  then show ?thesis by (simp add: chibihash64__rotl_def)
next
  case False
  with assms have "nat ((- n) AND 63) = 64 - nat n"
    by (simp add: and_63_int zmod_zminus1_eq_if nat_diff_distrib)
  moreover have "0 < nat n" and "nat n < 64" using assms False by auto
  ultimately show ?thesis by (simp add: chibihash64__rotl_def shifts_eq_rotl)
qed

section \<open>Little-endian loads\<close>

text \<open>The value of a byte list read least significant byte first.\<close>

fun le_word :: "u8 list \<Rightarrow> u64" where
  "le_word [] = 0"
| "le_word (b # bs) = ucast b OR push_bit 8 (le_word bs)"

lemma take4_drop:
  "k + 4 \<le> length m \<Longrightarrow> take 4 (drop k m) = [m ! k, m ! (k + 1), m ! (k + 2), m ! (k + 3)]"
  by (rule nth_equalityI) (auto simp: nth_Cons' numeral_nat less_Suc_eq)

lemma load32le_eq:
  assumes "k + 4 \<le> length m"
  shows "chibihash64__load32le m (int k) = Some (le_word (take 4 (drop k m)))"
proof -
  have r: "read_at m (int k + int i) = Some (m ! (k + i))" if "i < 4" for i
    using that assms read_at_inside [of "k + i" m] by simp
  from r [of 0] r [of 1] r [of 2] r [of 3] show ?thesis
    by (simp add: chibihash64__load32le_def take4_drop [OF assms] push_bit_or or.assoc)
qed

lemma le_woread_at_append:
  "le_word (xs @ ys) = le_word xs OR push_bit (8 * length xs) (le_word ys)"
  by (induction xs) (simp_all add: push_bit_or or.assoc)

lemma load64le_eq:
  assumes "k + 8 \<le> length m"
  shows "chibihash64__load64le m (int k) = Some (le_word (take 8 (drop k m)))"
proof -
  have "take 8 (drop k m) = take 4 (drop k m) @ take 4 (drop (k + 4) m)"
    using take_add [of 4 4 "drop k m"] by (simp add: add.commute)
  moreover have "int k + 4 = int (k + 4)" by simp
  ultimately show ?thesis
    using assms load32le_eq [of k m] load32le_eq [of "k + 4" m]
    by (simp add: chibihash64__load64le_def le_woread_at_append)
qed

section \<open>The final mix is a permutation of the 64-bit words\<close>

text \<open>
  \<open>x \<mapsto> x XOR rotl a x XOR rotl b x\<close> is linear over XOR, and squaring it doubles both
  rotations; after six squarings the rotations are by multiples of 64 and the map is the identity.
\<close>

definition xor_rots :: "nat \<Rightarrow> nat \<Rightarrow> u64 \<Rightarrow> u64" where
  "xor_rots a b x = x XOR (word_rotl a x XOR word_rotl b x)"

lemma xor_rots_twice: "xor_rots a b (xor_rots a b x) = xor_rots (2 * a) (2 * b) x"
  by (simp add: xor_rots_def word_rotl_xor word_rotl_word_rotl ac_simps flip: mult_2)

lemma xor_rots_power: "xor_rots a b ^^ (2 ^ k) = xor_rots (2 ^ k * a) (2 ^ k * b)"
proof (induction k arbitrary: a b)
  case 0
  show ?case by simp
next
  case (Suc k)
  have "xor_rots a b ^^ (2 ^ Suc k) = (xor_rots a b ^^ 2) ^^ (2 ^ k)"
    by (simp add: funpow_mult)
  also have "xor_rots a b ^^ 2 = xor_rots (2 * a) (2 * b)"
    by (simp add: fun_eq_iff numeral_2_eq_2 xor_rots_twice)
  finally show ?case by (simp add: Suc.IH ac_simps)
qed

lemma bij_xor_rots: "bij (xor_rots a b)"
proof (rule funpow_id_bij [where n = "2 ^ 6"])
  show "xor_rots a b ^^ (2 ^ 6) = id"
    by (subst xor_rots_power) (simp add: fun_eq_iff xor_rots_def)
qed simp



lemma K_inverse: "chibi_K * 0x1515B8835A2DB517 = 1"
  by (simp add: chibi_K_def)

lemma bij_mult_K: "bij (\<lambda>x. x * chibi_K)"
proof (rule o_bij [where g = "\<lambda>x. x * 0x1515B8835A2DB517"])
  have inv: "0x1515B8835A2DB517 * chibi_K = 1" using K_inverse by (simp only: mult.commute)
  show "(\<lambda>x. x * 0x1515B8835A2DB517) \<circ> (\<lambda>x. x * chibi_K) = id"
    by (simp only: fun_eq_iff o_apply mult.assoc K_inverse mult_1_right id_apply) simp
  show "(\<lambda>x. x * chibi_K) \<circ> (\<lambda>x. x * 0x1515B8835A2DB517) = id"
    by (simp only: fun_eq_iff o_apply mult.assoc inv mult_1_right id_apply) simp
qed

lemma avalanche_comp: "avalanche = xor_rots 13 31 \<circ> ((\<lambda>x. x * chibi_K) \<circ> xor_rots 15 42)"
  by (simp add: fun_eq_iff avalanche_def xor_rots_def rotl_eq_word_rotl Let_def)

lemma bij_avalanche: "bij avalanche"
  unfolding avalanche_comp by (intro bij_comp bij_xor_rots bij_mult_K)

section \<open>Reference definition by blocks\<close>

text \<open>
  A block of 32 bytes updates all four lanes at once, a block of 8 bytes the first two, and
  what is left (fewer than 8 bytes) goes into the last two.
\<close>

definition absorb32 :: "u64 list \<Rightarrow> u8 list \<Rightarrow> u64 list" where
  "absorb32 h bs =
     (let s = (\<lambda>i. le_word (take 8 (drop (8 * i) bs)))
      in [(s 0 + h ! 0) * chibi_K + word_rotl 27 (s 3),
          (s 1 + (h ! 1 + word_rotl 27 (s 0))) * chibi_K,
          (s 2 + (h ! 2 + word_rotl 27 (s 1))) * chibi_K,
          (s 3 + (h ! 3 + word_rotl 27 (s 2))) * chibi_K])"

definition absorb8 :: "u64 list \<Rightarrow> u8 list \<Rightarrow> u64 list" where
  "absorb8 h bs =
     [(h ! 0 XOR le_word (take 4 bs)) * chibi_K, (h ! 1 XOR le_word (take 4 (drop 4 bs))) * chibi_K, h ! 2, h ! 3]"

function absorb_blocks :: "nat \<Rightarrow> (u64 list \<Rightarrow> u8 list \<Rightarrow> u64 list) \<Rightarrow> u64 list \<Rightarrow> u8 list \<Rightarrow> u64 list \<times> u8 list" where
  "absorb_blocks n f h bs =
     (if 0 < n \<and> n \<le> length bs then absorb_blocks n f (f h (take n bs)) (drop n bs) else (h, bs))"
  by pat_completeness auto
termination
  by (relation "measure (\<lambda>(n, f, h, bs). length bs)") auto

declare absorb_blocks.simps [simp del]

definition absorb_tail :: "u64 list \<Rightarrow> u8 list \<Rightarrow> u64 list" where
  "absorb_tail h r =
     (if 4 \<le> length r then
        [h ! 0, h ! 1, h ! 2 XOR le_word (take 4 r), h ! 3 XOR le_word (drop (length r - 4) r)]
      else if r \<noteq> [] then
        [h ! 0, h ! 1, h ! 2 XOR ucast (hd r),
         h ! 3 XOR le_word [r ! (length r div 2), last r]]
      else h)"

definition chibi_spec :: "u8 list \<Rightarrow> u64 \<Rightarrow> u64" where
  "chibi_spec key seed =
     (let (h, r) = absorb_blocks 32 absorb32 (init_lanes seed) key;
          (h, r) = absorb_blocks 8 absorb8 h r
      in chibi_finish (int (length key)) seed (mix_lanes (absorb_tail h r)))"

section \<open>The loops compute the reference\<close>

lemma list4: "length h = 4 \<Longrightarrow> h = [h ! 0, h ! 1, h ! 2, h ! 3]"
  by (rule nth_equalityI) (auto simp: nth_Cons' numeral_nat less_Suc_eq)

lemma length_absorb [simp]: "length (absorb32 h bs) = 4" "length (absorb8 h bs) = 4"
  by (simp_all add: absorb32_def absorb8_def Let_def)


lemma upd4:
  "[a, b, c, d][0 := x] = [x, b, c, d]" "[a, b, c, d][1 := x] = [a, x, c, d]"
  "[a, b, c, d][2 := x] = [a, b, x, d]" "[a, b, c, d][3 := x] = [a, b, c, x]"
  by (simp_all add: numeral_nat)

lemma nth4:
  "[a, b, c, d] ! 0 = a" "[a, b, c, d] ! 1 = b" "[a, b, c, d] ! 2 = c" "[a, b, c, d] ! 3 = d"
  by simp_all

lemma stripe_loop_unfold:
  "stripe_loop m 0 p [a, b, c, d] = do {
     s \<leftarrow> chibihash64__load64le m p;
     stripe_loop m (Suc 0) (p + 8) [(s + a) * chibi_K, b + chibihash64__rotl s 27, c, d] }"
  "stripe_loop m (Suc 0) p [a, b, c, d] = do {
     s \<leftarrow> chibihash64__load64le m p;
     stripe_loop m 2 (p + 8) [a, (s + b) * chibi_K, c + chibihash64__rotl s 27, d] }"
  "stripe_loop m 2 p [a, b, c, d] = do {
     s \<leftarrow> chibihash64__load64le m p;
     stripe_loop m 3 (p + 8) [a, b, (s + c) * chibi_K, d + chibihash64__rotl s 27] }"
  "stripe_loop m 3 p [a, b, c, d] = do {
     s \<leftarrow> chibihash64__load64le m p;
     stripe_loop m 4 (p + 8) [a + chibihash64__rotl s 27, b, c, (s + d) * chibi_K] }"
  "stripe_loop m 4 p h = Some (p, h)"
proof -
  show "stripe_loop m 0 p [a, b, c, d] = do {
     s \<leftarrow> chibihash64__load64le m p;
     stripe_loop m (Suc 0) (p + 8) [(s + a) * chibi_K, b + chibihash64__rotl s 27, c, d] }"
    by (subst stripe_loop.simps) (simp add: Let_def)
  show "stripe_loop m (Suc 0) p [a, b, c, d] = do {
     s \<leftarrow> chibihash64__load64le m p;
     stripe_loop m 2 (p + 8) [a, (s + b) * chibi_K, c + chibihash64__rotl s 27, d] }"
    by (subst stripe_loop.simps) (simp add: Let_def upd4 numeral_2_eq_2 [symmetric])
  show "stripe_loop m 2 p [a, b, c, d] = do {
     s \<leftarrow> chibihash64__load64le m p;
     stripe_loop m 3 (p + 8) [a, b, (s + c) * chibi_K, d + chibihash64__rotl s 27] }"
    by (subst stripe_loop.simps) (simp add: Let_def upd4)
  show "stripe_loop m 3 p [a, b, c, d] = do {
     s \<leftarrow> chibihash64__load64le m p;
     stripe_loop m 4 (p + 8) [a + chibihash64__rotl s 27, b, c, (s + d) * chibi_K] }"
    by (subst stripe_loop.simps) (simp add: Let_def upd4)
  show "stripe_loop m 4 p h = Some (p, h)"
    by (subst stripe_loop.simps) simp
qed

lemma stripe_loop_block:
  assumes "k + 32 \<le> length m" and h: "length h = 4"
  shows "stripe_loop m 0 (int k) h = Some (int k + 32, absorb32 h (take 32 (drop k m)))"
proof -
  define w where "w i = le_word (take 8 (drop (k + 8 * i) m))" for i
  have ld: "chibihash64__load64le m (int k + 8 * int i) = Some (w i)" if "i < 4" for i
    using that assms(1) load64le_eq [of "k + 8 * i" m] by (simp add: w_def)
  obtain a b c d where hs: "h = [a, b, c, d]" using list4 [OF h] by blast
  have s: "le_word (take 8 (drop (8 * i) (take 32 (drop k m)))) = w i" if "i < 4" for i
    using that by (simp add: drop_take min_def add.commute w_def)
  have "absorb32 h (take 32 (drop k m))
      = [(w 0 + a) * chibi_K + word_rotl 27 (w 3), (w 1 + (b + word_rotl 27 (w 0))) * chibi_K,
         (w 2 + (c + word_rotl 27 (w 1))) * chibi_K, (w 3 + (d + word_rotl 27 (w 2))) * chibi_K]"
    unfolding absorb32_def Let_def using s [of 0] s [of 1] s [of 2] s [of 3]
    by (simp add: hs)
  then show ?thesis
    using ld [of 0] ld [of 1] ld [of 2] ld [of 3]
    by (simp add: hs stripe_loop_unfold rotl_eq_word_rotl add.assoc)
qed

lemma length_absorb_blocks:
  assumes "length h = 4" and "\<And>h bs. length (f h bs) = 4"
  shows "length (fst (absorb_blocks n f h bs)) = 4"
  using assms
  by (induction n f h bs rule: absorb_blocks.induct) (subst absorb_blocks.simps, auto)

lemma absorb_blocks_rest:
  assumes "0 < n"
  shows "length (snd (absorb_blocks n f h bs)) < n \<and>
    snd (absorb_blocks n f h bs) = drop (length bs - length (snd (absorb_blocks n f h bs))) bs"
  using assms
proof (induction n f h bs rule: absorb_blocks.induct)
  case (1 n f h bs)
  show ?case
  proof (cases "0 < n \<and> n \<le> length bs")
    case False
    then show ?thesis using "1.prems" by (subst (1 2 3) absorb_blocks.simps) auto
  next
    case True
    define r where "r = snd (absorb_blocks n f (f h (take n bs)) (drop n bs))"
    have r: "snd (absorb_blocks n f h bs) = r"
      using True by (subst absorb_blocks.simps) (simp add: r_def)
    have "length r < n \<and> r = drop (length (drop n bs) - length r) (drop n bs)"
      using "1.IH" True by (simp add: r_def)
    moreover then have "length r \<le> length bs - n" by (metis diff_le_self length_drop)
    ultimately show ?thesis using True by (simp add: r)
  qed
qed

lemma bulk_loop_eq:
  assumes "k \<le> length m" and "length h = 4"
  shows "bulk_loop m (int (length m) - int k) (int k) h =
    (let (h, r) = absorb_blocks 32 absorb32 h (drop k m)
     in Some (int (length r), int (length m) - int (length r), h))"
  using assms
proof (induction "length m - k" arbitrary: k h rule: less_induct)
  case less
  show ?case
  proof (cases "k + 32 \<le> length m")
    case True
    then have l: "int (length m) - int k \<ge> 32" by simp
    have "bulk_loop m (int (length m) - int (k + 32)) (int (k + 32)) (absorb32 h (take 32 (drop k m)))
      = (let (h, r) = absorb_blocks 32 absorb32 (absorb32 h (take 32 (drop k m))) (drop (k + 32) m)
         in Some (int (length r), int (length m) - int (length r), h))"
      using True by (intro less.hyps) auto
    moreover have "bulk_loop m (int (length m) - int k) (int k) h =
        bulk_loop m (int (length m) - int (k + 32)) (int (k + 32)) (absorb32 h (take 32 (drop k m)))"
      using l by (subst bulk_loop.simps) (simp add: stripe_loop_block [OF True less.prems(2)] algebra_simps)
    moreover have "absorb_blocks 32 absorb32 h (drop k m)
      = absorb_blocks 32 absorb32 (absorb32 h (take 32 (drop k m))) (drop (k + 32) m)"
      using True by (subst absorb_blocks.simps) (auto simp: add.commute)
    ultimately show ?thesis by simp
  next
    case False
    then have "bulk_loop m (int (length m) - int k) (int k) h = Some (int (length m) - int k, int k, h)"
      by (subst bulk_loop.simps) simp
    moreover have "absorb_blocks 32 absorb32 h (drop k m) = (h, drop k m)"
      using False by (subst absorb_blocks.simps) auto
    ultimately show ?thesis using less.prems by simp
  qed
qed


lemma word_loop_step:
  assumes k: "k + 8 \<le> length m" and h: "length h = 4"
  shows "word_loop m (int (length m) - int k) (int k) h =
    word_loop m (int (length m) - int (k + 8)) (int (k + 8)) (absorb8 h (take 8 (drop k m)))"
proof -
  obtain a b c d where hs: "h = [a, b, c, d]" using list4 [OF h] by blast
  have "int k + 4 = int (k + 4)" "take 4 (drop 4 (take 8 (drop k m))) = take 4 (drop (k + 4) m)"
    by (simp_all add: drop_take add.commute)
  then show ?thesis
    using k load32le_eq [of k m] load32le_eq [of "k + 4" m]
    by (subst word_loop.simps) (simp add: hs absorb8_def Let_def upd4 min_def algebra_simps)
qed

lemma word_loop_eq:
  assumes "k \<le> length m" and "length h = 4"
  shows "word_loop m (int (length m) - int k) (int k) h =
    (let (h, r) = absorb_blocks 8 absorb8 h (drop k m)
     in Some (int (length r), int (length m) - int (length r), h))"
  using assms
proof (induction "length m - k" arbitrary: k h rule: less_induct)
  case less
  show ?case
  proof (cases "k + 8 \<le> length m")
    case True
    have "word_loop m (int (length m) - int (k + 8)) (int (k + 8)) (absorb8 h (take 8 (drop k m)))
      = (let (h, r) = absorb_blocks 8 absorb8 (absorb8 h (take 8 (drop k m))) (drop (k + 8) m)
         in Some (int (length r), int (length m) - int (length r), h))"
      using True by (intro less.hyps) auto
    moreover have "absorb_blocks 8 absorb8 h (drop k m)
      = absorb_blocks 8 absorb8 (absorb8 h (take 8 (drop k m))) (drop (k + 8) m)"
      using True by (subst absorb_blocks.simps) (auto simp: add.commute)
    ultimately show ?thesis using word_loop_step [OF True less.prems(2)] by simp
  next
    case False
    then have "word_loop m (int (length m) - int k) (int k) h = Some (int (length m) - int k, int k, h)"
      by (subst word_loop.simps) simp
    moreover have "absorb_blocks 8 absorb8 h (drop k m) = (h, drop k m)"
      using False by (subst absorb_blocks.simps) auto
    ultimately show ?thesis using less.prems by simp
  qed
qed

lemma tail_bytes_eq:
  assumes r: "r = drop k m" "k \<le> length m" and h: "length h = 4"
  shows "tail_bytes m (int (length r)) (int k) h = Some (absorb_tail h r)"
proof -
  obtain a b c d where hs: "h = [a, b, c, d]" using list4 [OF h] by blast
  have rd_r: "read_at m (int k + int i) = Some (r ! i)" if "i < length r" for i
    using that r read_at_inside [of "k + i" m] by simp
  consider "4 \<le> length r" | "0 < length r" "length r < 4" | "r = []" by fastforce
  then show ?thesis
  proof cases
    case 1
    have len: "length r = length m - k" using r by simp
    have k4: "k + 4 \<le> length m" "k + length r - 4 + 4 \<le> length m"
      using 1 len r(2) by arith+
    have "k + length r - 4 = length r - 4 + k" using 1 by arith
    then have "drop (k + length r - 4) m = drop (length r - 4) r" by (simp only: r(1) drop_drop)
    then have "take 4 (drop (k + length r - 4) m) = drop (length r - 4) r" by simp
    moreover have "int k + int (length r) - 4 = int (k + length r - 4)" using 1 by simp
    ultimately have "chibihash64__load32le m (int k + int (length r) - 4)
        = Some (le_word (drop (length r - 4) r))"
      using load32le_eq [OF k4(2)] by (simp only:)
    moreover have "chibihash64__load32le m (int k) = Some (le_word (take 4 r))"
      using load32le_eq [OF k4(1)] r by simp
    ultimately show ?thesis
      using 1 by (simp add: tail_bytes_def hs absorb_tail_def upd4)
  next
    case 2
    then have ne: "r \<noteq> []" by auto
    then have eq: "int (length r - 1) = int (length r) - 1" by (cases r) auto
    from ne have "read_at m (int k + int (length r - 1)) = Some (last r)"
      using rd_r [of "length r - 1"] by (simp add: last_conv_nth del: of_nat_diff)
    then have "read_at m (int k + (int (length r) - 1)) = Some (last r)" by (simp only: eq)
    moreover have "read_at m (int k + int (length r) div 2) = Some (r ! (length r div 2))"
      using 2 rd_r [of "length r div 2"] by (simp add: zdiv_int)
    moreover have "read_at m (int k) = Some (hd r)"
      using 2 rd_r [of 0] by (simp add: hd_conv_nth)
    ultimately show ?thesis
      using 2 by (auto simp add: tail_bytes_def hs absorb_tail_def upd4)
  qed (auto simp: tail_bytes_def absorb_tail_def)
qed

lemma chibihash64_eq_spec:
  "chibihash64 key (int (length key)) seed = Some (chibi_spec key seed)"
proof -
  let ?b = "absorb_blocks 32 absorb32 (init_lanes seed) key"
  let ?w = "absorb_blocks 8 absorb8 (fst ?b) (snd ?b)"
  have hb: "length (fst ?b) = 4" and hw: "length (fst ?w) = 4"
    by (simp_all add: length_absorb_blocks)
  define k1 where "k1 = length key - length (snd ?b)"
  have b: "snd ?b = drop k1 key" "k1 \<le> length key"
    using absorb_blocks_rest [of 32] by (auto simp: k1_def)
  define k2 where "k2 = k1 + (length (snd ?b) - length (snd ?w))"
  have w: "snd ?w = drop k2 key" "k2 \<le> length key"
    using absorb_blocks_rest [of 8 absorb8 "fst ?b" "snd ?b"] b
    by (auto simp: k2_def add.commute) 
  have "bulk_loop key (int (length key)) 0 (init_lanes seed)
      = Some (int (length key) - int k1, int k1, fst ?b)"
    using bulk_loop_eq [of 0 key "init_lanes seed"] b by (simp add: case_prod_beta)
  moreover have "word_loop key (int (length key) - int k1) (int k1) (fst ?b)
      = Some (int (length (snd ?w)), int k2, fst ?w)"
    using word_loop_eq [OF b(2) hb] w b by (simp add: case_prod_beta)
  moreover have "tail_bytes key (int (length (snd ?w))) (int k2) (fst ?w)
      = Some (absorb_tail (fst ?w) (snd ?w))"
    by (rule tail_bytes_eq [OF w hw])
  ultimately show ?thesis
    by (simp add: chibihash64_def chibi_spec_def case_prod_beta)
qed


section \<open>Bytes past the length are never looked at\<close>

lemma read_at_append: "read_at m i = Some x \<Longrightarrow> read_at (m @ n) i = Some x"
  by (auto simp: read_at_def nth_append split: if_splits)

lemma load32le_append:
  "chibihash64__load32le m p = Some x \<Longrightarrow> chibihash64__load32le (m @ n) p = Some x"
  using read_at_append [of m p _ n] read_at_append [of m "p + 1" _ n]
    read_at_append [of m "p + 2" _ n] read_at_append [of m "p + 3" _ n]
  by (fastforce simp: chibihash64__load32le_def Option.bind_eq_Some_conv)

lemma load64le_append:
  "chibihash64__load64le m p = Some x \<Longrightarrow> chibihash64__load64le (m @ n) p = Some x"
  using load32le_append [of m p _ n] load32le_append [of m "p + 4" _ n]
  by (fastforce simp: chibihash64__load64le_def Option.bind_eq_Some_conv)

lemma stripe_loop_append:
  "stripe_loop m i p h = Some r \<Longrightarrow> stripe_loop (m @ n) i p h = Some r"
proof (induction m i p h rule: stripe_loop.induct)
  case (1 m i p h)
  show ?case
    using "1.prems" load64le_append [of m p _ n] "1.IH"
    by (subst stripe_loop.simps, subst (asm) stripe_loop.simps)
       (fastforce simp: Option.bind_eq_Some_conv Let_def split: if_splits)
qed

lemma bulk_loop_append:
  "bulk_loop m l p h = Some r \<Longrightarrow> bulk_loop (m @ n) l p h = Some r"
proof (induction m l p h rule: bulk_loop.induct)
  case (1 m l p h)
  show ?case
    using "1.prems" stripe_loop_append [of m 0 p h _ n] "1.IH"
    by (subst bulk_loop.simps, subst (asm) bulk_loop.simps)
       (fastforce simp: Option.bind_eq_Some_conv split: if_splits)
qed

lemma word_loop_append:
  "word_loop m l p h = Some r \<Longrightarrow> word_loop (m @ n) l p h = Some r"
proof (induction m l p h rule: word_loop.induct)
  case (1 m l p h)
  show ?case
    using "1.prems" load32le_append [of m p _ n] load32le_append [of m "p + 4" _ n] "1.IH"
    by (subst word_loop.simps, subst (asm) word_loop.simps)
       (fastforce simp: Option.bind_eq_Some_conv Let_def split: if_splits)
qed

lemma tail_bytes_append:
  assumes "tail_bytes m l p h = Some r"
  shows "tail_bytes (m @ n) l p h = Some r"
  using assms load32le_append [of m p _ n] load32le_append [of m "p + l - 4" _ n]
    read_at_append [of m p _ n] read_at_append [of m "p + l div 2" _ n] read_at_append [of m "p + (l - 1)" _ n]
  by (fastforce simp: tail_bytes_def Option.bind_eq_Some_conv split: if_splits)

lemma chibihash64_append:
  assumes "chibihash64 m l seed = Some r"
  shows "chibihash64 (m @ n) l seed = Some r"
proof -
  from assms obtain l1 p1 h1 l2 p2 h2 h3 where
    "bulk_loop m l 0 (init_lanes seed) = Some (l1, p1, h1)"
    "word_loop m l1 p1 h1 = Some (l2, p2, h2)"
    "tail_bytes m l2 p2 h2 = Some h3" and r: "r = chibi_finish l seed (mix_lanes h3)"
    by (auto simp: chibihash64_def Option.bind_eq_Some_conv)
  then show ?thesis
    by (simp add: chibihash64_def bulk_loop_append [where n = n] word_loop_append [where n = n]
        tail_bytes_append [where n = n])
qed


section \<open>Stores and loads\<close>

definition bytes_of_u64 :: "u64 \<Rightarrow> u8 list" where
  "bytes_of_u64 w = map (\<lambda>i. ucast (drop_bit (8 * i) w)) [0..<8]"

lemma bit_le_word:
  "bit (le_word bs) n \<longleftrightarrow> n < 64 \<and> n div 8 < length bs \<and> bit (bs ! (n div 8)) (n mod 8)"
proof (induction bs arbitrary: n)
  case Nil
  then show ?case by simp
next
  case (Cons b bs)
  show ?case
  proof (cases "n < 8")
    case True
    then show ?thesis by (simp add: bit_or_iff bit_push_bit_iff bit_ucast_iff)
  next
    case False
    then have "n div 8 = Suc ((n - 8) div 8)" "n mod 8 = (n - 8) mod 8"
      by (simp_all add: le_div_geq le_mod_geq)
    moreover have "\<not> bit (ucast b :: u64) n"
      using False bit_imp_le_length [of b n] by (auto simp: bit_ucast_iff)
    ultimately show ?thesis
      using False Cons.IH [of "n - 8"] by (auto simp: bit_or_iff bit_push_bit_iff)
  qed
qed

lemma le_word_bytes_of_u64: "le_word (bytes_of_u64 w) = w"
proof (rule bit_word_eqI)
  fix n assume "n < LENGTH(64)"
  then have n: "n < 64" "n div 8 < 8" by auto
  have "8 * (n div 8) + n mod 8 = n" by simp
  with n show "bit (le_word (bytes_of_u64 w)) n = bit w n"
    by (auto simp: bit_le_word bytes_of_u64_def bit_ucast_iff bit_drop_bit_eq)
qed

text \<open>
  C3: the hash of a key of any length is defined (the loops and the overlapping tail reads stay
  inside the \<open>len\<close> bytes) and equals the block-wise reference, which mentions no pointer;
  bytes that follow the key in memory change neither.
\<close>

theorem chibihash64_correct:
  "chibihash64 (key @ rest) (int (length key)) seed = Some (chibi_spec key seed)"
  by (rule chibihash64_append) (rule chibihash64_eq_spec)

text \<open>
  For every length and seed the final mix is a bijection of the combined lane value, so two
  keys of one length collide only if their lanes already do; no output value is unreachable.
\<close>

theorem chibi_finish_bij: "bij (chibi_finish len seed)"
proof -
  let ?c = "word_of_int len * chibi_K"
  let ?d = "(?c XOR chibihash64__rotl ?c 29) + seed"
  have "chibi_finish len seed = avalanche \<circ> (\<lambda>x. x XOR ?d)"
    by (simp add: fun_eq_iff chibi_finish_def Let_def xor.commute)
  then show ?thesis by (simp add: bij_avalanche bij_comp xor_left_inj)
qed

text \<open>
  \<open>chibihash64__load64le\<close> reads back exactly the word whose eight bytes were stored
  least significant first, wherever they lie in the buffer.
\<close>

theorem chibi_load64le_roundtrip:
  "chibihash64__load64le (xs @ bytes_of_u64 w @ ys) (int (length xs)) = Some w"
proof -
  have "length (bytes_of_u64 w) = 8" by (simp add: bytes_of_u64_def)
  then show ?thesis
    using load64le_eq [of "length xs" "xs @ bytes_of_u64 w @ ys"]
    by (simp add: le_word_bytes_of_u64)
qed

text \<open>
  The shift-and-or of \<open>chibihash64__rotl\<close> is the left rotation for every count the C
  shift operators define, the count 0 included (the mask keeps the right shift below 64).
\<close>

theorem chibi_rotl_is_rotation:
  assumes "0 \<le> n" and "n < 64"
  shows "chibihash64__rotl x n = word_rotl (nat n) x"
  using assms by (rule rotl_eq_word_rotl)

lemma chibi_rotl_is_rotation_witness:
  "chibihash64__rotl 0x8000000000000001 4 = 0x18 \<and> word_rotl 4 (0x8000000000000001 :: u64) = 0x18"
proof -
  have "chibihash64__rotl 0x8000000000000001 4 = word_rotl (nat 4) 0x8000000000000001"
    by (rule chibi_rotl_is_rotation) simp_all
  moreover have "chibihash64__rotl 0x8000000000000001 4 = 0x18"
    by (simp add: chibihash64__rotl_def)
  ultimately show ?thesis by simp
qed

end
