(* ===== verification/HashTable.thy ===== *)
theory HashTable
  imports ChibiHash
begin

text \<open>
  The growing array of hashes of \<open>hashing/test.c\<close>: \<open>table_insert\<close> and the lookup in
  \<open>main\<close>. A cell the program has not written since \<open>realloc\<close> handed it out is
  \<open>None\<close>; reading one, reading outside the array or through the null pointer is a fault.
  Whether an allocation succeeds is an argument of the operations.
\<close>

section \<open>State and operations\<close>

datatype table_fault = Null_deref | Out_of_bounds | Uninitialised_read

record table =
  hash_array :: "u64 option list option"
  hash_array_entry_count :: nat

definition empty_table :: table where
  "empty_table = \<lparr>hash_array = None, hash_array_entry_count = 0\<rparr>"

definition read_cell :: "table \<Rightarrow> nat \<Rightarrow> table_fault + u64" where
  "read_cell t i =
     (case hash_array t of
        None \<Rightarrow> Inl Null_deref
      | Some cells \<Rightarrow>
          if i < length cells
          then (case cells ! i of None \<Rightarrow> Inl Uninitialised_read | Some v \<Rightarrow> Inr v)
          else Inl Out_of_bounds)"

text \<open>The two linear searches: the index of the first cell that holds the hash, if any.\<close>

function find_hash :: "table \<Rightarrow> u64 \<Rightarrow> nat \<Rightarrow> table_fault + nat option" where
  "find_hash t hash i =
     (if i < hash_array_entry_count t then
        (case read_cell t i of
           Inl e \<Rightarrow> Inl e
         | Inr v \<Rightarrow> if v = hash then Inr (Some i) else find_hash t hash (i + 1))
      else Inr None)"
  by pat_completeness auto
termination
  by (relation "measure (\<lambda>(t, hash, i). hash_array_entry_count t - i)") auto

declare find_hash.simps [simp del]

text \<open>\<open>realloc\<close> to \<open>n\<close> cells: the old contents stay, new cells are not initialised.\<close>

definition realloc_cells :: "bool \<Rightarrow> u64 option list option \<Rightarrow> nat \<Rightarrow> u64 option list option" where
  "realloc_cells ok arr n =
     (if ok then
        (let old = (case arr of None \<Rightarrow> [] | Some cells \<Rightarrow> cells)
         in Some (take n old @ replicate (n - length old) None))
      else None)"

datatype table_msg = Duplicate u64 | Found u64 u64 | Not_found u64

definition append_hash :: "bool \<Rightarrow> u64 \<Rightarrow> table \<Rightarrow> table_fault + table" where
  "append_hash ok hash t =
     (let tail = hash_array_entry_count t;
          t = t\<lparr>hash_array := realloc_cells ok (hash_array t) (hash_array_entry_count t + 1)\<rparr>
      in case hash_array t of
           None \<Rightarrow> Inr t
         | Some cells \<Rightarrow>
             if tail < length cells
             then Inr (t\<lparr>hash_array := Some (cells[tail := Some hash]),
                         hash_array_entry_count := hash_array_entry_count t + 1\<rparr>)
             else Inl Out_of_bounds)"

definition insert_with ::
  "('k \<Rightarrow> u64 option) \<Rightarrow> bool \<Rightarrow> 'k option \<Rightarrow> table \<Rightarrow> table_fault + table \<times> table_msg list" where
  "insert_with hashf ok str t =
     (case str of
        None \<Rightarrow> Inr (t, [])
      | Some s \<Rightarrow>
          (case hashf s of
             None \<Rightarrow> Inl Out_of_bounds
           | Some hash \<Rightarrow>
               if hash = 0 then Inr (t, [])
               else
                 (case (if hash_array t = None then Inr None else find_hash t hash 0) of
                    Inl e \<Rightarrow> Inl e
                  | Inr (Some i) \<Rightarrow> Inr (t, [Duplicate hash])
                  | Inr None \<Rightarrow> map_sum id (\<lambda>t. (t, [])) (append_hash ok hash t))))"

definition chibihash64_wrapper :: "u8 list \<Rightarrow> u64 option" where
  "chibihash64_wrapper input = chibihash64 input (int (length input)) 0xFFFFFFFFFFFFFFFF"

definition table_insert ::
  "bool \<Rightarrow> u8 list option \<Rightarrow> table \<Rightarrow> table_fault + table \<times> table_msg list" where
  "table_insert = insert_with chibihash64_wrapper"

text \<open>Inserting a sequence of strings, each with the outcome of its allocation.\<close>

fun insert_all ::
  "('k \<Rightarrow> u64 option) \<Rightarrow> (bool \<times> 'k) list \<Rightarrow> table \<Rightarrow> table_fault + table \<times> table_msg list" where
  "insert_all hashf [] t = Inr (t, [])"
| "insert_all hashf ((ok, s) # ss) t =
     (case insert_with hashf ok (Some s) t of
        Inl e \<Rightarrow> Inl e
      | Inr (t', out) \<Rightarrow> map_sum id (\<lambda>(t'', out'). (t'', out @ out')) (insert_all hashf ss t'))"

definition c_bytes :: "string \<Rightarrow> u8 list" where
  "c_bytes s = map of_char s"

definition demo_strings :: "u8 list list" where
  "demo_strings = map c_bytes
     [''abcd'', ''efgh'', ''ijkl'', ''ijkl'', ''mnop'', ''qrst'', ''uvwx'', ''yzab'', ''cdef'',
      ''ghij'', ''klmn'']"

definition lookup_msg ::
  "('k \<Rightarrow> u64 option) \<Rightarrow> table \<Rightarrow> 'k \<Rightarrow> table_fault + int \<times> table_msg list" where
  "lookup_msg hashf t arg =
     (case hashf arg of
        None \<Rightarrow> Inl Out_of_bounds
      | Some input_hash \<Rightarrow>
          if input_hash = 0 then Inr (1, [])
          else
            (case find_hash t input_hash 0 of
               Inl e \<Rightarrow> Inl e
             | Inr (Some i) \<Rightarrow> map_sum id (\<lambda>v. (0, [Found input_hash v])) (read_cell t i)
             | Inr None \<Rightarrow> Inr (0, [Not_found input_hash])))"

definition hash_main :: "bool list \<Rightarrow> u8 list option \<Rightarrow> table_fault + int \<times> table_msg list" where
  "hash_main oks argv1 =
     (case argv1 of
        None \<Rightarrow> Inr (1, [])
      | Some arg \<Rightarrow>
          (case insert_all chibihash64_wrapper (zip oks demo_strings) empty_table of
             Inl e \<Rightarrow> Inl e
           | Inr (t, out) \<Rightarrow>
               map_sum id (\<lambda>(code, out'). (code, out @ out')) (lookup_msg chibihash64_wrapper t arg)))"


section \<open>What the array represents\<close>

text \<open>
  The abstract state is the list of distinct non-zero hashes in insertion order; \<open>add_hash\<close>
  is what one insertion does to it.
\<close>

definition represents :: "table \<Rightarrow> u64 list \<Rightarrow> bool" where
  "represents t hs \<longleftrightarrow>
     (hash_array t = Some (map Some hs) \<or> hash_array t = None \<and> hs = []) \<and>
     hash_array_entry_count t = length hs \<and> distinct hs \<and> 0 \<notin> set hs"

definition add_hash :: "u64 \<Rightarrow> u64 list \<Rightarrow> u64 list" where
  "add_hash h hs = (if h = 0 \<or> h \<in> set hs then hs else hs @ [h])"

lemma represents_empty [simp]: "represents empty_table []"
  by (simp add: represents_def empty_table_def)

lemma set_add_hash [simp]: "set (add_hash h hs) = set hs \<union> ({h} - {0})"
  by (auto simp: add_hash_def)

lemma set_fold_add_hash: "set (fold add_hash ks hs) = set hs \<union> (set ks - {0})"
  by (induction ks arbitrary: hs) auto

lemma read_cell_represents:
  "represents t hs \<Longrightarrow> i < length hs \<Longrightarrow> read_cell t i = Inr (hs ! i)"
  by (auto simp: represents_def read_cell_def)

lemma find_hash_represents:
  assumes "represents t hs"
  shows "if h \<in> set (drop i hs) then \<exists>j<length hs. find_hash t h i = Inr (Some j) \<and> hs ! j = h
         else find_hash t h i = Inr None"
  using assms
proof (induction t h i rule: find_hash.induct)
  case (1 t h i)
  have n: "hash_array_entry_count t = length hs"
    using "1.prems" by (simp add: represents_def)
  show ?case
  proof (cases "i < length hs")
    case False
    then show ?thesis by (subst (1 2) find_hash.simps) (simp add: n)
  next
    case True
    then have r: "read_cell t i = Inr (hs ! i)"
      using "1.prems" by (simp add: read_cell_represents)
    have d: "drop i hs = hs ! i # drop (i + 1) hs"
      using True by (simp add: Cons_nth_drop_Suc)
    show ?thesis
    proof (cases "hs ! i = h")
      case eq: True
      then show ?thesis using True by (subst (1 2) find_hash.simps) (simp add: n r d)
    next
      case False
      with True n r have "find_hash t h i = find_hash t h (i + 1)"
        by (subst find_hash.simps) simp
      moreover have "h \<in> set (drop i hs) \<longleftrightarrow> h \<in> set (drop (i + 1) hs)"
        using False by (simp add: d)
      ultimately show ?thesis using "1.IH" [of "hs ! i"] True n r False "1.prems" by (simp split: if_splits)
    qed
  qed
qed

lemma find_hash_present:
  "represents t hs \<Longrightarrow> h \<in> set hs \<Longrightarrow> \<exists>j<length hs. find_hash t h 0 = Inr (Some j) \<and> hs ! j = h"
  using find_hash_represents [of t hs h 0] by simp

lemma find_hash_absent:
  "represents t hs \<Longrightarrow> h \<notin> set hs \<Longrightarrow> find_hash t h 0 = Inr None"
  using find_hash_represents [of t hs h 0] by simp

lemma append_hash_represents:
  assumes "represents t hs" and "h \<notin> set hs" and "h \<noteq> 0"
  shows "\<exists>t'. append_hash True h t = Inr t' \<and> represents t' (hs @ [h])"
  using assms
  by (auto simp: represents_def append_hash_def realloc_cells_def Let_def list_update_append
      split: option.splits)

lemma append_hash_fails:
  "append_hash False h t = Inr (t\<lparr>hash_array := None\<rparr>)"
  by (simp add: append_hash_def realloc_cells_def Let_def)

lemma replicate_update_last: "(replicate (Suc n) x)[n := y] = replicate n x @ [y]"
  by (induction n) auto

section \<open>The interface to the hash function\<close>

text \<open>
  The table relies on one law of the hash: it is defined on every key. Everything below holds
  for any such hash.
\<close>

locale total_hash =
  fixes hashf :: "'k \<Rightarrow> u64 option" and hash :: "'k \<Rightarrow> u64"
  assumes hash_total: "hashf s = Some (hash s)"
begin

lemma insert_refines:
  assumes "represents t hs"
  shows "\<exists>t'. insert_with hashf True (Some s) t =
           Inr (t', if hash s \<noteq> 0 \<and> hash s \<in> set hs then [Duplicate (hash s)] else []) \<and>
         represents t' (add_hash (hash s) hs)"
proof (cases "hash s = 0 \<or> hash s \<in> set hs")
  case True
  then show ?thesis
    using assms find_hash_present [OF assms, of "hash s"]
    by (auto simp: insert_with_def hash_total add_hash_def represents_def)
next
  case False
  then show ?thesis
    using append_hash_represents [OF assms, of "hash s"] find_hash_absent [OF assms, of "hash s"]
    by (auto simp: insert_with_def hash_total add_hash_def)
qed

lemma insert_all_refines:
  assumes "represents t hs" and "\<forall>(ok, s) \<in> set ss. ok"
  shows "\<exists>t' out. insert_all hashf ss t = Inr (t', out) \<and>
           represents t' (fold add_hash (map (hash \<circ> snd) ss) hs) \<and>
           (\<exists>ds. out = map Duplicate ds)"
  using assms
proof (induction ss arbitrary: t hs)
  case Nil
  then show ?case by simp
next
  case (Cons x ss)
  obtain s where x: "x = (True, s)" using Cons.prems(2) by (cases x) auto
  from insert_refines [OF Cons.prems(1), of s] obtain t' out where
    t': "insert_with hashf True (Some s) t = Inr (t', out)" "represents t' (add_hash (hash s) hs)"
      "\<exists>ds. out = map Duplicate ds"
    by (auto split: if_splits) (metis list.map)
  from Cons.IH [OF t'(2)] Cons.prems(2) t' show ?case by (auto simp: x simp flip: map_append)
qed

lemma lookup_refines:
  assumes "represents t hs"
  shows "lookup_msg hashf t s =
    Inr (if hash s = 0 then (1, [])
         else if hash s \<in> set hs then (0, [Found (hash s) (hash s)])
         else (0, [Not_found (hash s)]))"
  using find_hash_present [OF assms, of "hash s"] find_hash_absent [OF assms, of "hash s"]
    read_cell_represents [OF assms]
  by (auto simp: lookup_msg_def hash_total)

end

interpretation chibi: total_hash chibihash64_wrapper "\<lambda>s. chibi_spec s 0xFFFFFFFFFFFFFFFF"
  by unfold_locales (simp add: chibihash64_wrapper_def chibihash64_eq_spec)

section \<open>Properties\<close>

text \<open>
  C10: one insertion whose allocation succeeds never faults and refines the abstract insertion:
  the array stays fully initialised, free of duplicates and of the zero hash, its count equals
  its length, and a repeated string is reported and leaves it unchanged.
\<close>

theorem table_insert_refines:
  assumes "represents t hs"
  shows "\<exists>t'. table_insert True (Some s) t =
           Inr (t', let h = chibi_spec s 0xFFFFFFFFFFFFFFFF
                    in if h \<noteq> 0 \<and> h \<in> set hs then [Duplicate h] else []) \<and>
         represents t' (add_hash (chibi_spec s 0xFFFFFFFFFFFFFFFF) hs)"
  using chibi.insert_refines [OF assms, of s] by (simp add: table_insert_def Let_def)

lemma table_insert_refines_witness:
  "\<exists>t'. table_insert True (Some [97]) empty_table = Inr (t', []) \<and>
     represents t' (add_hash (chibi_spec [97] 0xFFFFFFFFFFFFFFFF) [])"
  using table_insert_refines [OF represents_empty, of "[97]"] by simp

text \<open>
  C39: a failed \<open>realloc\<close> leaves the table broken: the array pointer is overwritten with NULL
  while the count stays, so a lookup dereferences NULL; the next insertion, when its allocation
  succeeds, publishes cells nobody ever wrote, and the lookup after it reads them.
\<close>

theorem table_insert_after_failed_realloc:
  assumes "represents t hs" and "hs \<noteq> []"
    and "hashf s1 = Some h1" and "h1 \<noteq> 0" and "h1 \<notin> set hs"
    and "hashf s2 = Some h2" and "h2 \<noteq> 0"
  shows "\<exists>t1 t2. insert_with hashf False (Some s1) t = Inr (t1, []) \<and>
           find_hash t1 h 0 = Inl Null_deref \<and>
           insert_with hashf True (Some s2) t1 = Inr (t2, []) \<and>
           find_hash t2 h 0 = Inl Uninitialised_read"
proof -
  define t1 where "t1 = t\<lparr>hash_array := None\<rparr>"
  define t2 where "t2 = t\<lparr>hash_array := Some (replicate (length hs) None @ [Some h2]),
                          hash_array_entry_count := length hs + 1\<rparr>"
  have n: "hash_array_entry_count t = length hs" using assms(1) by (simp add: represents_def)
  have "insert_with hashf False (Some s1) t = Inr (t1, [])"
    using assms(3,4) find_hash_absent [OF assms(1,5)]
    by (simp add: insert_with_def append_hash_fails t1_def)
  moreover have "find_hash t1 h 0 = Inl Null_deref"
    using assms(2) by (subst find_hash.simps) (simp add: t1_def n read_cell_def)
  moreover have "insert_with hashf True (Some s2) t1 = Inr (t2, [])"
    using assms(6,7)
    by (simp add: insert_with_def append_hash_def realloc_cells_def t1_def t2_def n Let_def
        replicate_update_last del: replicate_Suc)
  moreover have "find_hash t2 h 0 = Inl Uninitialised_read"
    using assms(2) by (subst find_hash.simps) (simp add: t2_def read_cell_def nth_append)
  ultimately show ?thesis by blast
qed

lemma table_insert_after_failed_realloc_witness:
  "\<exists>t1 t2. insert_with (\<lambda>n. Some (of_nat n)) False (Some (2::nat))
             \<lparr>hash_array = Some [Some 1], hash_array_entry_count = 1\<rparr> = Inr (t1, []) \<and>
     find_hash t1 7 0 = Inl Null_deref \<and>
     insert_with (\<lambda>n. Some (of_nat n)) True (Some 3) t1 = Inr (t2, []) \<and>
     find_hash t2 7 0 = Inl Uninitialised_read"
  by (rule table_insert_after_failed_realloc [where hs = "[1]" and ?h1.0 = 2 and ?h2.0 = 3])
     (simp_all add: represents_def)


section \<open>Reachable tables\<close>

text \<open>
  The states the program can bring the table into, failed allocations included. In all of them the
  array is as long as the counter says, or missing.
\<close>

inductive reachable :: "table \<Rightarrow> bool" where
  start: "reachable empty_table"
| insertion: "reachable t \<Longrightarrow> table_insert ok s t = Inr (t', out) \<Longrightarrow> reachable t'"

definition well_formed :: "table \<Rightarrow> bool" where
  "well_formed t \<longleftrightarrow>
     (case hash_array t of
        None \<Rightarrow> True
      | Some cells \<Rightarrow> length cells = hash_array_entry_count t \<and> Some 0 \<notin> set cells)"

lemma well_formed_append:
  assumes "well_formed t" and "h \<noteq> 0"
  shows "\<exists>t'. append_hash ok h t = Inr t' \<and> well_formed t'"
proof (cases "ok")
  case False
  then show ?thesis by (simp add: append_hash_fails well_formed_def)
next
  case True
  define old where "old = (case hash_array t of None \<Rightarrow> [] | Some cells \<Rightarrow> cells)"
  have old: "length old \<le> hash_array_entry_count t" "Some 0 \<notin> set old"
    using assms(1) by (auto simp: well_formed_def old_def split: option.splits)
  let ?n = "hash_array_entry_count t"
  let ?cells = "(old @ replicate (?n + 1 - length old) None)[?n := Some h]"
  have "append_hash ok h t = Inr (t\<lparr>hash_array := Some ?cells, hash_array_entry_count := ?n + 1\<rparr>)"
    using True old(1) by (simp add: append_hash_def realloc_cells_def Let_def flip: old_def)
  moreover have "Some 0 \<notin> set ?cells"
    using old(2) assms(2) set_update_subset_insert [of "old @ replicate (?n + 1 - length old) None" ?n "Some h"]
    by auto
  ultimately show ?thesis using old(1) by (simp add: well_formed_def)
qed

lemma find_hash_faults:
  "well_formed t \<Longrightarrow> find_hash t h i = Inl e \<Longrightarrow>
     e = (if hash_array t = None then Null_deref else Uninitialised_read)"
proof (induction t h i rule: find_hash.induct)
  case (1 t h i)
  have "read_cell t i = Inl e' \<Longrightarrow> e' = (if hash_array t = None then Null_deref else Uninitialised_read)"
    if "i < hash_array_entry_count t" for e'
    using 1 that by (cases "hash_array t") (auto simp: read_cell_def well_formed_def split: option.splits)
  with 1 show ?case using find_hash.simps [of t h i] by (auto split: if_splits sum.splits)
qed

lemma find_hash_readable: "find_hash t h i = Inr (Some j) \<Longrightarrow> read_cell t j = Inr h"
proof (induction t h i rule: find_hash.induct)
  case (1 t h i)
  then show ?case using find_hash.simps [of t h i] by (auto split: if_splits sum.splits)
qed

lemma well_formed_insert:
  assumes "well_formed t" and "insert_with hashf ok s t = Inr (t', out)"
  shows "well_formed t'"
proof -
  have append: "h \<noteq> 0 \<Longrightarrow> append_hash ok h t = Inr t1 \<Longrightarrow> well_formed t1" for h t1
    using well_formed_append [OF assms(1), of h ok] by auto
  show ?thesis
    using assms append
    by (auto simp: insert_with_def map_sum_def split: option.splits sum.splits if_splits)
qed

lemma insert_faults:
  assumes "well_formed t" and "\<And>s. hashf s = Some (hash s)" and "insert_with hashf ok s t = Inl e"
  shows "e = Uninitialised_read"
proof -
  have "append_hash ok h t \<noteq> Inl e" if "h \<noteq> 0" for h
    using well_formed_append [OF assms(1) that, of ok] by auto
  then show ?thesis
    using assms(2,3) find_hash_faults [OF assms(1)]
    by (cases "hash_array t") (auto simp: insert_with_def map_sum_def split: option.splits sum.splits if_splits)
qed

lemma reachable_well_formed: "reachable t \<Longrightarrow> well_formed t"
proof (induction rule: reachable.induct)
  case start
  show ?case by (simp add: well_formed_def empty_table_def)
next
  case (insertion t ok s t' out)
  then show ?case using well_formed_insert unfolding table_insert_def by blast
qed

lemma lookup_faults:
  assumes "well_formed t" and "\<And>s. hashf s = Some (hash s)" and "lookup_msg hashf t key = Inl e"
  shows "e = (if hash_array t = None then Null_deref else Uninitialised_read)"
  using assms(2,3) find_hash_faults [OF assms(1), of "hash key" 0] find_hash_readable [of t "hash key" 0]
  by (auto simp: lookup_msg_def map_sum_def split: option.splits sum.splits if_splits)

lemmas chibi_lookup_faults = lookup_faults [where hashf = chibihash64_wrapper, OF _ chibi.hash_total]
lemmas chibi_insert_faults = insert_faults [where hashf = chibihash64_wrapper, OF _ chibi.hash_total]

lemma chibi_lookup_inside: "well_formed t \<Longrightarrow> lookup_msg chibihash64_wrapper t key \<noteq> Inl Out_of_bounds"
  using chibi_lookup_faults [of t key Out_of_bounds] by (auto split: if_splits)

text \<open>A table that no failed allocation has broken: all its cells are written.\<close>

definition contents :: "table \<Rightarrow> u64 list" where
  "contents t = (case hash_array t of None \<Rightarrow> [] | Some cells \<Rightarrow> map the cells)"

definition intact :: "table \<Rightarrow> bool" where
  "intact t \<longleftrightarrow> represents t (contents t)"

lemma represents_intact: "represents t hs \<Longrightarrow> intact t \<and> contents t = hs"
  by (auto simp: intact_def contents_def represents_def comp_def)

lemma intact_empty [simp]: "intact empty_table"
  using represents_intact [OF represents_empty] by simp

lemma intact_insert:
  assumes "intact t"
  shows "\<exists>t' out. table_insert True s t = Inr (t', out) \<and> intact t'"
proof (cases s)
  case None
  with assms show ?thesis by (simp add: table_insert_def insert_with_def)
next
  case (Some x)
  obtain t' where "insert_with chibihash64_wrapper True s t = Inr t'"
    "represents (fst t') (add_hash (chibi_spec x 0xFFFFFFFFFFFFFFFF) (contents t))"
    using chibi.insert_refines [OF assms [unfolded intact_def], of x] by (force simp: Some)
  then show ?thesis
    using represents_intact by (cases t') (auto simp: table_insert_def)
qed

text \<open>An insertion into an intact table does not fault even when its allocation fails.\<close>

lemma intact_insert_any:
  assumes "intact t"
  shows "table_insert ok s t \<noteq> Inl e"
proof (cases ok)
  case True
  then show ?thesis using intact_insert [OF assms, of s] by auto
next
  case False
  have r: "represents t (contents t)" using assms by (simp add: intact_def)
  have "find_hash t h 0 \<noteq> Inl e" for h
    using find_hash_present [OF r, of h] find_hash_absent [OF r, of h] by (cases "h \<in> set (contents t)") auto
  then show ?thesis
    using False chibi.hash_total
    by (auto simp: table_insert_def insert_with_def append_hash_fails map_sum_def split: option.splits sum.splits)
qed

text \<open>
  C11: in every reachable state of the table, after any sequence of insertions and failed
  allocations, the array is missing or exactly as long as the counter and holds no zero hash. No
  insertion and no lookup accesses memory outside it; the only faults are reading a cell that was
  never written and, for a lookup, the null array, and neither happens on an intact table. A table stays
  intact as long as the allocations succeed.
\<close>

theorem reachable_tables_safe:
  assumes "reachable t"
  shows "well_formed t \<and>
    (case table_insert ok s t of
       Inl e \<Rightarrow> e = Uninitialised_read \<and> \<not> intact t
     | Inr (t', _) \<Rightarrow> well_formed t' \<and> (if intact t \<and> ok then intact t' else True)) \<and>
    (case lookup_msg chibihash64_wrapper t key of
       Inl e \<Rightarrow> e = (if hash_array t = None then Null_deref else Uninitialised_read) \<and> \<not> intact t
     | Inr _ \<Rightarrow> True)"
proof -
  note wf = reachable_well_formed [OF assms]
  have "case table_insert ok s t of Inl e \<Rightarrow> e = Uninitialised_read \<and> \<not> intact t
      | Inr (t', _) \<Rightarrow> well_formed t' \<and> (if intact t \<and> ok then intact t' else True)"
  proof (cases "table_insert ok s t")
    case (Inl e)
    then show ?thesis
      using chibi_insert_faults [OF wf] intact_insert_any by (auto simp: table_insert_def)
  next
    case (Inr r)
    obtain t' out where r: "r = (t', out)" by (cases r)
    have "intact t'" if "intact t" "ok" using intact_insert [OF that(1), of s] Inr r that(2) by auto
    moreover have "well_formed t'" using well_formed_insert [OF wf] Inr r unfolding table_insert_def by blast
    ultimately show ?thesis using Inr r by simp
  qed
  moreover have "\<not> intact t" if "lookup_msg chibihash64_wrapper t key = Inl e" for e
    using that chibi.lookup_refines [of t "contents t" key] by (auto simp: intact_def)
  ultimately show ?thesis
    using wf chibi_lookup_faults [OF wf] by (auto split: sum.split)
qed

lemma reachable_tables_safe_witness:
  "well_formed empty_table \<and>
    (case table_insert True (Some [97]) empty_table of Inl e \<Rightarrow> False | Inr (t', _) \<Rightarrow> well_formed t' \<and> intact t') \<and>
    (case lookup_msg chibihash64_wrapper empty_table [98] of Inl e \<Rightarrow> False | Inr _ \<Rightarrow> True)"
  using reachable_tables_safe [OF start, of True "Some [97]" "[98]"] by (auto split: sum.splits)

section \<open>The whole program\<close>

lemma insert_all_well_formed:
  "well_formed t \<Longrightarrow>
     (case insert_all chibihash64_wrapper ss t of Inl e \<Rightarrow> e = Uninitialised_read | Inr (t', _) \<Rightarrow> well_formed t')"
proof (induction ss arbitrary: t)
  case (Cons x ss)
  obtain ok s where x: "x = (ok, s)" by (cases x)
  show ?case
  proof (cases "insert_with chibihash64_wrapper ok (Some s) t")
    case (Inl e)
    then show ?thesis using chibi_insert_faults [OF Cons.prems] by (simp add: x)
  next
    case (Inr r)
    obtain t' out where r: "r = (t', out)" by (cases r)
    have "well_formed t'" using well_formed_insert [OF Cons.prems] Inr r by blast
    from Cons.IH [OF this] show ?thesis by (simp add: x Inr r split: sum.splits prod.splits)
  qed
qed simp

text \<open>
  C30: when all eleven allocations succeed, \<open>main\<close> reports a string as found exactly when its hash is
  that of one of the inserted strings, prints the same hash twice in that case, and before
  that only duplicate reports. When some of them fail it may fault, but never outside the array.
\<close>

theorem hash_main_correct:
  assumes "length oks = 11"
  shows "if False \<in> set oks then hash_main oks (Some s) \<noteq> Inl Out_of_bounds
    else \<exists>ds. hash_main oks (Some s) =
       (let hash = (\<lambda>s. chibi_spec s 0xFFFFFFFFFFFFFFFF)
        in Inr (if hash s = 0 then (1, map Duplicate ds)
                else (0, map Duplicate ds @ [if hash s \<in> hash ` set demo_strings
                                 then Found (hash s) (hash s) else Not_found (hash s)])))"
proof -
  let ?hash = "\<lambda>s. chibi_spec s 0xFFFFFFFFFFFFFFFF"
  let ?ss = "zip oks demo_strings"
  have len: "length demo_strings = 11" by (simp add: demo_strings_def)
  show ?thesis
  proof (cases "False \<in> set oks")
    case True
    have "well_formed empty_table" by (rule reachable_well_formed [OF start])
    from insert_all_well_formed [OF this, of ?ss] show ?thesis
      using True chibi_lookup_inside
      by (auto simp: hash_main_def map_sum_def split: sum.splits if_splits)
  next
    case False
    have snd: "map (?hash \<circ> snd) ?ss = map ?hash demo_strings"
      using assms len by (simp flip: map_map)
    have "ok" if "ok \<in> set oks" for ok using False that by (cases ok) auto
    then have oks: "\<forall>(ok, s) \<in> set ?ss. ok" by (auto dest: set_zip_leftD)
    from chibi.insert_all_refines [OF represents_empty oks] obtain t ds where
      t: "insert_all chibihash64_wrapper ?ss empty_table = Inr (t, map Duplicate ds)"
        "represents t (fold add_hash (map ?hash demo_strings) [])"
      unfolding snd by blast
    have mem: "?hash s \<noteq> 0 \<Longrightarrow>
        ?hash s \<in> set (fold add_hash (map ?hash demo_strings) []) \<longleftrightarrow> ?hash s \<in> ?hash ` set demo_strings"
      by (simp add: set_fold_add_hash)
    have "\<exists>ds. hash_main oks (Some s) =
       (let hash = ?hash
        in Inr (if hash s = 0 then (1, map Duplicate ds)
                else (0, map Duplicate ds @ [if hash s \<in> hash ` set demo_strings
                                 then Found (hash s) (hash s) else Not_found (hash s)])))"
      using t mem by (intro exI [of _ ds]) (auto simp: hash_main_def chibi.lookup_refines [OF t(2)] Let_def)
    then show ?thesis unfolding if_not_P [OF False] .
  qed
qed

lemma hash_main_correct_witness:
  "hash_main (replicate 10 True @ [False]) (Some [97]) \<noteq> Inl Out_of_bounds"
  using hash_main_correct [of "replicate 10 True @ [False]" "[97]"] by simp

end
