(* ===== verification/Digits.thy ===== *)
theory Digits
  imports Prelude "HOL-Library.Char_ord"
begin

text \<open>
  Numbers as text: the digits of a number in a base, the digit characters, and reading digits
  back. The printing routines of the C code are proved against these, and the C library's
  \<open>%d\<close>, \<open>%u\<close>, \<open>%x\<close>, \<open>atoi\<close> and \<open>strtoul\<close> are written with them.
\<close>

section \<open>Digits of a number\<close>

fun digits :: "nat \<Rightarrow> nat \<Rightarrow> nat list" where
  "digits b n = (if b < 2 \<or> n < b then [n] else digits b (n div b) @ [n mod b])"

declare digits.simps [simp del]

definition horner :: "nat \<Rightarrow> nat list \<Rightarrow> nat" where
  "horner b ds = foldl (\<lambda>a d. a * b + d) 0 ds"

lemma horner_snoc [simp]: "horner b (ds @ [d]) = horner b ds * b + d"
  by (simp add: horner_def)

lemma horner_Nil [simp]: "horner b [] = 0"
  by (simp add: horner_def)

lemma horner_digits [simp]: "horner b (digits b n) = n"
proof (induction b n rule: digits.induct)
  case (1 b n)
  then show ?case
    by (subst digits.simps) (auto simp: horner_def)
qed

lemma digits_bound: "1 < b \<Longrightarrow> d \<in> set (digits b n) \<Longrightarrow> d < b"
proof (induction b n rule: digits.induct)
  case (1 b n)
  then show ?case
    by (subst (asm) (2) digits.simps) (auto split: if_splits)
qed

lemma digits_not_Nil [simp]: "digits b n \<noteq> []"
  by (subst digits.simps) simp

lemma length_digits_le: "1 < b \<Longrightarrow> n < b ^ k \<Longrightarrow> 0 < k \<Longrightarrow> length (digits b n) \<le> k"
proof (induction k arbitrary: n)
  case (Suc k)
  show ?case
  proof (cases "n < b")
    case False
    then have "n div b < b ^ k" "0 < k"
      using Suc.prems by (auto simp: less_mult_imp_div_less mult.commute intro!: gr0I)
    with Suc.IH [of "n div b"] Suc.prems(1) show ?thesis
      by (subst digits.simps) simp
  qed (subst digits.simps, simp)
qed simp

section \<open>Digit characters\<close>

definition digit_char :: "nat \<Rightarrow> char" where
  "digit_char d = (if d < 16 then ''0123456789abcdef'' ! d else CHR ''?'')"

definition char_digit :: "nat \<Rightarrow> char \<Rightarrow> nat option" where
  "char_digit b c =
     (let k = of_char c :: nat;
          d = (if 48 \<le> k \<and> k \<le> 57 then k - 48
               else if 97 \<le> k \<and> k \<le> 102 then k - 87
               else if 65 \<le> k \<and> k \<le> 70 then k - 55 else b)
      in if d < b then Some d else None)"

lemma less_sixteen_cases:
  "d < 16 \<longleftrightarrow> d = 0 \<or> d = 1 \<or> d = 2 \<or> d = 3 \<or> d = 4 \<or> d = 5 \<or> d = 6 \<or> d = 7 \<or> d = 8 \<or>
     d = 9 \<or> d = 10 \<or> d = 11 \<or> d = 12 \<or> d = 13 \<or> d = 14 \<or> d = (15 :: nat)"
  by (auto simp: eval_nat_numeral less_Suc_eq)

lemma char_digit_digit_char [simp]:
  assumes "d < b" and "b \<le> 16"
  shows "char_digit b (digit_char d) = Some d"
proof -
  have "d < 16" using assms by simp
  then show ?thesis
    using assms unfolding less_sixteen_cases
    by (elim disjE) (simp_all add: digit_char_def char_digit_def)
qed

definition show_base :: "nat \<Rightarrow> nat \<Rightarrow> string" where
  "show_base b n = map digit_char (digits b n)"

definition read_base :: "nat \<Rightarrow> string \<Rightarrow> nat option" where
  "read_base b s =
     (if s = [] then None else map_option (horner b) (those (map (char_digit b) s)))"

lemma those_map_Some: "(\<And>x. x \<in> set xs \<Longrightarrow> f (g x) = Some x) \<Longrightarrow> those (map (\<lambda>x. f (g x)) xs) = Some xs"
  by (induction xs) auto

lemma read_show_base:
  assumes "1 < b" and "b \<le> 16"
  shows "read_base b (show_base b n) = Some n"
proof -
  have "those (map (\<lambda>d. char_digit b (digit_char d)) (digits b n)) = Some (digits b n)"
    using digits_bound [OF assms(1)] assms(2) by (intro those_map_Some) simp
  then show ?thesis by (simp add: read_base_def show_base_def comp_def)
qed

lemma digit_char_neq:
  "digit_char d \<noteq> CHR ''/''" "digit_char d \<noteq> CHR ''+''"
  unfolding digit_char_def by (auto simp: less_sixteen_cases)

lemma show_base_chars: "CHR ''/'' \<notin> set (show_base b n)" "CHR ''+'' \<notin> set (show_base b n)"
  by (auto simp: show_base_def digit_char_neq [symmetric])

lemma show_base_zero: "show_base b 0 = ''0''"
  by (cases "b < 2") (simp_all add: show_base_def digits.simps [of b 0] digit_char_def)

section \<open>Numbers of a fixed length\<close>

text \<open>The last \<open>len\<close> decimal digits of a number, leading zeros included.\<close>

fun padded :: "nat \<Rightarrow> nat \<Rightarrow> nat list" where
  "padded 0 n = []"
| "padded (Suc len) n = padded len (n div 10) @ [n mod 10]"

lemma length_padded [simp]: "length (padded len n) = len"
  by (induction len arbitrary: n) simp_all

lemma horner_padded: "horner 10 (padded len n) = n mod 10 ^ len"
proof (induction len arbitrary: n)
  case (Suc len)
  have "n mod 10 ^ Suc len = (n div 10 mod 10 ^ len) * 10 + n mod 10"
    by (simp add: mod_mult2_eq)
  with Suc show ?case by simp
qed simp

lemma padded_bound: "d \<in> set (padded len n) \<Longrightarrow> d < 10"
  by (induction len arbitrary: n) auto

lemma padded_mod: "m mod 10 ^ len = n mod 10 ^ len \<Longrightarrow> padded len m = padded len n"
proof (induction len arbitrary: m n)
  case (Suc len)
  have ten: "k mod 10 = k mod 10 ^ Suc len mod 10" "k div 10 mod 10 ^ len = k mod 10 ^ Suc len div 10" for k :: nat
    by (simp_all add: mod_mult2_eq)
  show ?case
    using Suc.IH [of "m div 10" "n div 10"] Suc.prems ten [of m] ten [of n] by simp
qed simp

lemma padded_not_Nil: "0 < len \<Longrightarrow> padded len n \<noteq> []"
  by (metis length_padded length_greater_0_conv)

text \<open>
  The contract of a routine that writes a number with a fixed count of digits into the front of a
  buffer: the glyphs of these digits, the rest of the buffer as it was.
\<close>

locale decimal_writer =
  fixes emit :: "u64 \<Rightarrow> nat \<Rightarrow> 'a list \<Rightarrow> 'a list option"
    and glyph :: "nat \<Rightarrow> 'a"
    and glyph_value :: "'a \<Rightarrow> nat option"
  assumes emit_padded:
      "0 < len \<Longrightarrow> len \<le> length buf \<Longrightarrow>
         emit n len buf = Some (map glyph (padded len (unat n)) @ drop len buf)"
    and glyph_value: "d < 10 \<Longrightarrow> glyph_value (glyph d) = Some d"
begin

lemma glyph_values: "those (map glyph_value (map glyph (padded len n))) = Some (padded len n)"
  unfolding map_map comp_def
  by (rule those_map_Some) (simp add: glyph_value padded_bound)

lemma read_back:
  assumes "0 < len" and "len \<le> length buf"
  shows "\<exists>ds. emit n len buf = Some (ds @ drop len buf) \<and> length ds = len \<and>
     map_option (horner 10) (those (map glyph_value ds)) = Some (unat n mod 10 ^ len)"
  by (intro exI [of _ "map glyph (padded len (unat n))"])
     (simp add: emit_padded [OF assms] glyph_values horner_padded del: map_map)

lemma emit_eq_iff:
  assumes "0 < len" and "len \<le> length buf"
  shows "emit m len buf = emit n len buf \<longleftrightarrow> unat m mod 10 ^ len = unat n mod 10 ^ len"
proof
  assume "emit m len buf = emit n len buf"
  then have "map glyph (padded len (unat m)) = map glyph (padded len (unat n))"
    by (simp add: emit_padded [OF assms])
  then have "padded len (unat m) = padded len (unat n)"
    by (metis glyph_values option.inject)
  then show "unat m mod 10 ^ len = unat n mod 10 ^ len" by (simp flip: horner_padded)
next
  assume eq: "unat m mod 10 ^ len = unat n mod 10 ^ len"
  have "padded len (unat m) = padded len (unat n)" using padded_mod [OF eq] .
  then show "emit m len buf = emit n len buf" by (simp add: emit_padded [OF assms])
qed

end

end
