(* ===== verification/LkmTemplate.thy ===== *)
theory LkmTemplate
  imports Digits
begin

text \<open>
  The kernel module template \<open>lkm_template/main.c\<close>: it finds \<open>kallsyms_lookup_name\<close> through a
  kprobe or by a radiating scan around \<open>sprint_symbol\<close>, then hunts for \<open>sys_call_table\<close> by
  following \<open>adrp\<close> instructions. The kernel it is loaded into is the record \<open>kernel_api\<close>; the
  module's static function pointers and its log are the record \<open>lkm\<close>. A run that jumps
  through a null function pointer, or for which a loop has no fuel left, has no result (\<open>None\<close>).
\<close>

section \<open>The kernel the module runs in\<close>

text \<open>
  \<open>fs\<close> is the address limit (true for \<open>KERNEL_DS\<close>) and \<open>pagefault_disabled\<close> the nesting
  depth of \<open>pagefault_disable\<close>.
\<close>

record access =
  kernel_ds :: bool
  pagefault_disabled :: nat

text \<open>
  The fields ending in \<open>_at\<close> say what the code at an address does when it is called with the
  type the module casts it to. \<open>k_sym_storage\<close> is what the storage of \<open>sym\<close> in
  \<open>lkm_boostrap\<close> holds when the jump to \<open>found\<close> has passed over its initialiser.
\<close>

record kernel_api =
  k_version :: nat
  k_access :: access
  k_copy_from_kernel_nofault :: "u64 \<Rightarrow> nat \<Rightarrow> u64 option"
  k_copy_from_user_inatomic :: "access \<Rightarrow> u64 \<Rightarrow> nat \<Rightarrow> nat \<times> u64"
  k_sprint_symbol_addr :: u64
  k_sprint_symbol :: "u64 \<Rightarrow> cint \<times> string"
  k_kstrtoul :: "string \<Rightarrow> u64 option"
  k_symbol_get :: "string \<Rightarrow> u64"
  k_lookup_at :: "u64 \<Rightarrow> string \<Rightarrow> u64"
  k_register_kprobe_at :: "u64 \<Rightarrow> string \<Rightarrow> cint \<times> u64"
  k_adrp_offset_at :: "u64 \<Rightarrow> u32 \<Rightarrow> cint"
  k_insn_is_adrp :: "u32 \<Rightarrow> bool"
  k_sym_storage :: string

definition KERNEL_VERSION :: "nat \<Rightarrow> nat \<Rightarrow> nat \<Rightarrow> nat" where
  "KERNEL_VERSION a b c = a * 65536 + b * 256 + c"

text \<open>What the module prints with \<open>pr_info\<close>, and the indirect calls it makes, in order.\<close>

datatype event =
    ScanFail nat u64 u64
  | Candidate string u64
  | ScanFound string u64 nat u64 u64
  | KprobeMissing
  | ScanFrom u64
  | Verify u64
  | SizeOffset cint u64 u64
  | KpSuccess string u64
  | AdrpAt u64 u32
  | Tgt u64
  | SctFound string u64 u64
  | Target string u64 u64
  | HelloWorld
  | Goodbye
  | CallLookup u64 string
  | CallRegister u64 string cint
  | CallUnregister u64
  | CallAdrpOffset u64 u32

record lkm =
  kallsyms_lookup_name_fn :: u64
  register_kprobe_fn :: u64
  unregister_kprobe_fn :: u64
  aarch64_insn_adrp_get_offset_fn :: u64
  klog :: "event list"

definition fresh_lkm :: lkm where
  "fresh_lkm = \<lparr>kallsyms_lookup_name_fn = 0, register_kprobe_fn = 0, unregister_kprobe_fn = 0,
                aarch64_insn_adrp_get_offset_fn = 0, klog = []\<rparr>"

definition say :: "event \<Rightarrow> lkm \<Rightarrow> lkm" where
  "say e s = s\<lparr>klog := klog s @ [e]\<rparr>"

section \<open>String functions\<close>

fun strchr :: "string \<Rightarrow> char \<Rightarrow> nat option" where
  "strchr [] c = None"
| "strchr (x # xs) c = (if x = c then Some 0 else map_option Suc (strchr xs c))"

definition strstarts :: "string \<Rightarrow> string \<Rightarrow> bool" where
  "strstarts s p = (take (length p) s = p)"

fun strstr :: "string \<Rightarrow> string \<Rightarrow> bool" where
  "strstr [] p = (p = [])"
| "strstr (x # xs) p = (strstarts (x # xs) p \<or> strstr xs p)"

section \<open>Reading kernel memory\<close>

text \<open>
  The replacement for kernels before 5.8. The pair it is given back by
  \<open>__copy_from_user_inatomic\<close> is the number of bytes not copied and the value read.
\<close>

definition compat_copy_from_kernel_nofault ::
  "(access \<Rightarrow> u64 \<Rightarrow> nat \<Rightarrow> nat \<times> u64) \<Rightarrow> u64 \<Rightarrow> nat \<Rightarrow> access \<Rightarrow> (cint \<times> u64) \<times> access" where
  "compat_copy_from_kernel_nofault inatomic src sz acc =
     (let old_fs = kernel_ds acc;
          acc = acc\<lparr>kernel_ds := True\<rparr>;
          acc = acc\<lparr>pagefault_disabled := pagefault_disabled acc + 1\<rparr>;
          (ret, v) = inatomic acc src sz;
          acc = acc\<lparr>pagefault_disabled := pagefault_disabled acc - 1\<rparr>;
          acc = acc\<lparr>kernel_ds := old_fs\<rparr>
      in ((if ret \<noteq> 0 then - 14 else 0, v), acc))"

definition copy_from_kernel_nofault :: "kernel_api \<Rightarrow> u64 \<Rightarrow> nat \<Rightarrow> u64 option" where
  "copy_from_kernel_nofault K src sz =
     (if k_version K < KERNEL_VERSION 5 8 0 then
        (case compat_copy_from_kernel_nofault (k_copy_from_user_inatomic K) src sz (k_access K) of
           ((ret, v), _) \<Rightarrow> if ret \<noteq> 0 then None else Some v)
      else k_copy_from_kernel_nofault K src sz)"

section \<open>The radiating scan\<close>

record radiating =
  r_iter :: nat
  r_curr :: u64
  r_up :: bool
  r_high :: u64
  r_low :: u64

definition max_iter :: nat where
  "max_iter = 400000"

definition lookup_prefix :: string where
  "lookup_prefix = ''kallsyms_lookup_name+''"

definition scan_start :: "u64 \<Rightarrow> radiating" where
  "scan_start ptr = \<lparr>r_iter = 0, r_curr = ptr, r_up = True, r_high = 0, r_low = 0\<rparr>"

text \<open>The step at the label \<open>inc\<close>.\<close>

definition scan_inc :: "u64 \<Rightarrow> radiating \<Rightarrow> radiating" where
  "scan_inc anchor r =
     (if r_up r then
        (let r = r\<lparr>r_iter := r_iter r + 1\<rparr>;
             r = r\<lparr>r_high := r_curr r\<rparr>;
             r = r\<lparr>r_curr := anchor + 4 * 16 * of_nat (r_iter r)\<rparr>
         in r\<lparr>r_up := False\<rparr>)
      else
        (let r = r\<lparr>r_low := r_curr r\<rparr>;
             r = r\<lparr>r_curr := anchor - 4 * 16 * of_nat (r_iter r)\<rparr>
         in r\<lparr>r_up := True\<rparr>))"

text \<open>
  From the label \<open>found_candidate\<close>: the address to install with the text printed for it, or
  nothing when the code goes back to \<open>inc\<close>.
\<close>

definition found_candidate ::
  "kernel_api \<Rightarrow> u64 \<Rightarrow> string \<Rightarrow> lkm \<Rightarrow> (u64 \<times> string) option \<times> lkm" where
  "found_candidate K cur buf s =
     (case strchr buf CHR ''/'' of
        None \<Rightarrow> (None, s)
      | Some sl \<Rightarrow>
          (let buf = take sl buf in
           case strchr buf CHR ''+'' of
             None \<Rightarrow> (None, s)
           | Some pl \<Rightarrow>
               (let s = say (Candidate buf cur) s in
                case k_kstrtoul K (drop (pl + 1) buf) of
                  None \<Rightarrow> (None, s)
                | Some offset \<Rightarrow>
                    (let test_p = cur - offset;
                         (n, buf) = k_sprint_symbol K test_p
                     in if \<not> 0 <s n then (None, s)
                        else if \<not> strstr buf ''+0x0'' then (None, s)
                        else (Some (cur - offset, buf), s)))))"

definition scan_probe :: "kernel_api \<Rightarrow> u64 \<Rightarrow> lkm \<Rightarrow> (u64 \<times> string) option \<times> lkm" where
  "scan_probe K cur s =
     (if copy_from_kernel_nofault K cur 4 = None then (None, s)
      else
        (let (n, buf) = k_sprint_symbol K cur
         in if (scast n :: u64) < of_nat (length lookup_prefix + 1) then (None, s)
            else if strstarts buf lookup_prefix then found_candidate K cur buf s
            else (None, s)))"

function start_r :: "kernel_api \<Rightarrow> u64 \<Rightarrow> radiating \<Rightarrow> lkm \<Rightarrow> cint \<times> lkm" where
  "start_r K anchor r s =
     (if max_iter \<le> r_iter r then (- 34, say (ScanFail (r_iter r) (r_high r) (r_low r)) s)
      else
        (case scan_probe K (r_curr r) s of
           (None, s) \<Rightarrow> start_r K anchor (scan_inc anchor r) s
         | (Some (cur, buf), s) \<Rightarrow>
             (let s = say (ScanFound buf cur (r_iter r) (r_high r) (r_low r)) s
              in (0, s\<lparr>kallsyms_lookup_name_fn := cur\<rparr>))))"
  by pat_completeness auto

termination
  by (relation "measure (\<lambda>(K, anchor, r, s). 2 * (max_iter - r_iter r) + (if r_up r then 0 else 1))")
     (auto simp: scan_inc_def Let_def)

declare start_r.simps [simp del]

definition bootstrap_kallsyms_lookup_name :: "kernel_api \<Rightarrow> u64 \<Rightarrow> lkm \<Rightarrow> cint \<times> lkm" where
  "bootstrap_kallsyms_lookup_name K ptr s = start_r K ptr (scan_start ptr) s"

section \<open>Symbol size and offset\<close>

text \<open>The result is the C return value with what is stored through the two pointers.\<close>

definition compat_kallsyms_lookup_size_offset :: "kernel_api \<Rightarrow> u64 \<Rightarrow> u64 \<Rightarrow> u64 \<Rightarrow> cint \<times> u64 \<times> u64" where
  "compat_kallsyms_lookup_size_offset K addr symbolsize offset =
     (let failed = (0, symbolsize, offset) in
      if addr = 0 then failed
      else
        (let (n, buf) = k_sprint_symbol K addr in
         if \<not> 0 <s n then failed
         else
           (case strchr buf CHR ''/'' of
              None \<Rightarrow> failed
            | Some c_sz \<Rightarrow>
                (case k_kstrtoul K (drop (c_sz + 1) buf) of
                   None \<Rightarrow> failed
                 | Some u_sz \<Rightarrow>
                     (let buf = take c_sz buf in
                      case strchr buf CHR ''+'' of
                        None \<Rightarrow> failed
                      | Some c_off \<Rightarrow>
                          (case k_kstrtoul K (drop (c_off + 1) buf) of
                             None \<Rightarrow> failed
                           | Some u_off \<Rightarrow> (1, u_sz, u_off)))))))"

definition get_ksym_size :: "kernel_api \<Rightarrow> u64 \<Rightarrow> u64 \<Rightarrow> u64" where
  "get_ksym_size K symbol_addr retfail =
     (let (ret, symbolsize, offset) = compat_kallsyms_lookup_size_offset K symbol_addr 0 0
      in if ret = 0 then retfail
         else if symbolsize = 0 \<and> offset = 0 then retfail
         else symbolsize)"

section \<open>Calls through function pointers\<close>

definition call_kallsyms_lookup_name :: "kernel_api \<Rightarrow> string \<Rightarrow> lkm \<Rightarrow> (u64 \<times> lkm) option" where
  "call_kallsyms_lookup_name K name s =
     (let fn = kallsyms_lookup_name_fn s
      in if fn = 0 then None else Some (k_lookup_at K fn name, say (CallLookup fn name) s))"

definition call_adrp_get_offset :: "kernel_api \<Rightarrow> u32 \<Rightarrow> lkm \<Rightarrow> (cint \<times> lkm) option" where
  "call_adrp_get_offset K insn s =
     (let fn = aarch64_insn_adrp_get_offset_fn s
      in if fn = 0 then None else Some (k_adrp_offset_at K fn insn, say (CallAdrpOffset fn insn) s))"

text \<open>\<open>__register_kprobe\<close> returns the C result and the \<open>addr\<close> field the kernel fills in.\<close>

definition register_kprobe :: "kernel_api \<Rightarrow> string \<Rightarrow> lkm \<Rightarrow> ((cint \<times> u64) \<times> lkm) option" where
  "register_kprobe K symbol_name s = do {
     s \<leftarrow> (if register_kprobe_fn s = 0 then
             map_option (\<lambda>(a, s). s\<lparr>register_kprobe_fn := a\<rparr>)
               (call_kallsyms_lookup_name K ''register_kprobe'' s)
           else Some s);
     (if register_kprobe_fn s = 0 then Some ((- 2, 0), s)
      else
        (let fn = register_kprobe_fn s;
             (ret, addr) = k_register_kprobe_at K fn symbol_name
         in Some ((ret, addr), say (CallRegister fn symbol_name ret) s)))
   }"

definition unregister_kprobe :: "kernel_api \<Rightarrow> lkm \<Rightarrow> lkm option" where
  "unregister_kprobe K s = do {
     s \<leftarrow> (if unregister_kprobe_fn s = 0 then
             map_option (\<lambda>(a, s). s\<lparr>unregister_kprobe_fn := a\<rparr>)
               (call_kallsyms_lookup_name K ''unregister_kprobe'' s)
           else Some s);
     (if unregister_kprobe_fn s = 0 then Some s
      else Some (say (CallUnregister (unregister_kprobe_fn s)) s))
   }"

definition kp_kallsyms_lookup_name :: "kernel_api \<Rightarrow> string \<Rightarrow> lkm \<Rightarrow> (u64 \<times> lkm) option" where
  "kp_kallsyms_lookup_name K name s = do {
     ((ret, kp_addr), s) \<leftarrow> register_kprobe K name s;
     (if ret \<noteq> 0 then Some (0, s)
      else do {
        s \<leftarrow> unregister_kprobe K s;
        Some (kp_addr, say (KpSuccess name kp_addr) s)
      })
   }"

section \<open>Bootstrap\<close>

text \<open>From the label \<open>found\<close>; \<open>sym\<close> is the content of the array at that point.\<close>

definition lkm_found :: "kernel_api \<Rightarrow> string \<Rightarrow> lkm \<Rightarrow> (cint \<times> lkm) option" where
  "lkm_found K symb s = do {
     (verify, s) \<leftarrow> call_kallsyms_lookup_name K symb s;
     (let s = say (Verify verify) s;
          (ret, sz, off) = compat_kallsyms_lookup_size_offset K verify 0 0
      in Some (0, say (SizeOffset ret sz off) s))
   }"

definition lkm_scan :: "kernel_api \<Rightarrow> lkm \<Rightarrow> (cint \<times> lkm) option" where
  "lkm_scan K s =
     (let symb = ''sprint_symbol'';
          addr = k_sprint_symbol_addr K;
          s = say (ScanFrom addr) s;
          (ret, s) = bootstrap_kallsyms_lookup_name K addr s
      in if ret \<noteq> 0 then Some (ret, s) else lkm_found K symb s)"

definition lkm_boostrap :: "kernel_api \<Rightarrow> lkm \<Rightarrow> (cint \<times> lkm) option" where
  "lkm_boostrap K s =
     (let s = s\<lparr>register_kprobe_fn := k_symbol_get K ''register_kprobe''\<rparr>;
          s = s\<lparr>unregister_kprobe_fn := k_symbol_get K ''unregister_kprobe''\<rparr>
      in if register_kprobe_fn s = 0 \<or> unregister_kprobe_fn s = 0 then lkm_scan K (say KprobeMissing s)
         else do {
           (a, s) \<leftarrow> kp_kallsyms_lookup_name K ''kallsyms_lookup_name'' s;
           (let s = s\<lparr>kallsyms_lookup_name_fn := a\<rparr>
            in if kallsyms_lookup_name_fn s \<noteq> 0 then lkm_found K (k_sym_storage K) s
               else lkm_scan K s)
         })"

section \<open>Hunting the system call table\<close>

definition max_tries :: nat where
  "max_tries = 4096 div 8"

text \<open>The inner loop, from the label \<open>scan_pg\<close>: whether the table was found.\<close>

function scan_pg :: "kernel_api \<Rightarrow> nat \<Rightarrow> u64 \<Rightarrow> lkm \<Rightarrow> bool \<times> lkm" where
  "scan_pg K tries cur s =
     (if tries > max_tries then (False, s)
      else
        (case copy_from_kernel_nofault K cur 8 of
           None \<Rightarrow> scan_pg K (tries + 1) (cur + 8) s
         | Some pbuf \<Rightarrow>
             (case copy_from_kernel_nofault K pbuf 8 of
                None \<Rightarrow> scan_pg K (tries + 1) (cur + 8) s
              | Some dummy \<Rightarrow>
                  (let (n, buf) = k_sprint_symbol K pbuf
                   in if \<not> 0 <s n then scan_pg K (tries + 1) (cur + 8) s
                      else if \<not> strstr buf ''sys_io_setup'' then scan_pg K (tries + 1) (cur + 8) s
                      else (True, say (SctFound buf pbuf cur) s)))))"
  by pat_completeness auto

termination
  by (relation "measure (\<lambda>(K, tries, cur, s). Suc max_tries - tries)") auto

declare scan_pg.simps [simp del]

text \<open>The outer loop, one unit of fuel for each instruction looked at.\<close>

fun scan_insns :: "nat \<Rightarrow> kernel_api \<Rightarrow> u64 \<Rightarrow> u64 \<Rightarrow> lkm \<Rightarrow> (cint \<times> lkm) option" where
  "scan_insns 0 K insn_p insn_end s = None"
| "scan_insns (Suc fuel) K insn_p insn_end s =
     (if insn_end \<le> insn_p then Some (- 34, s)
      else
        (case copy_from_kernel_nofault K insn_p 4 of
           None \<Rightarrow> scan_insns fuel K (insn_p + 4) insn_end s
         | Some w \<Rightarrow>
             (let raw_insn = ucast w :: u32
              in if \<not> k_insn_is_adrp K raw_insn then scan_insns fuel K (insn_p + 4) insn_end s
                 else do {
                   let s = say (AdrpAt insn_p raw_insn) s;
                   let pc_pg = insn_p AND NOT 0xFFF;
                   (off, s) \<leftarrow> call_adrp_get_offset K raw_insn s;
                   let tgt = pc_pg + scast off;
                   let s = say (Tgt tgt) s;
                   (case scan_pg K 0 tgt s of
                      (True, s) \<Rightarrow> Some (0, s)
                    | (False, s) \<Rightarrow> scan_insns fuel K (insn_p + 4) insn_end s)
                 })))"

definition hunt_sct_adrp :: "nat \<Rightarrow> kernel_api \<Rightarrow> u64 \<Rightarrow> u64 \<Rightarrow> lkm \<Rightarrow> (cint \<times> lkm) option" where
  "hunt_sct_adrp fuel K insn_addr_start scan_depth s =
     scan_insns fuel K insn_addr_start (insn_addr_start + scan_depth) s"

definition resolve_svc_handler ::
  "nat \<Rightarrow> kernel_api \<Rightarrow> string \<Rightarrow> string \<Rightarrow> u64 \<Rightarrow> lkm \<Rightarrow> (cint \<times> lkm) option" where
  "resolve_svc_handler fuel K native_sym compat_sym scan_depth s = do {
     (target, s) \<leftarrow> call_kallsyms_lookup_name K native_sym s;
     (if target = 0 then Some (- 2, s)
      else
        (let new_scan_depth = get_ksym_size K target scan_depth;
             s = say (Target native_sym target new_scan_depth) s
         in hunt_sct_adrp fuel K target new_scan_depth s))
   }"

definition hunt_sys_call_table :: "nat \<Rightarrow> kernel_api \<Rightarrow> lkm \<Rightarrow> lkm option" where
  "hunt_sys_call_table fuel K s = do {
     (a, s) \<leftarrow> call_kallsyms_lookup_name K ''aarch64_insn_adrp_get_offset'' s;
     let s = s\<lparr>aarch64_insn_adrp_get_offset_fn := a\<rparr>;
     (if aarch64_insn_adrp_get_offset_fn s = 0 then Some s
      else if KERNEL_VERSION 4 19 0 \<le> k_version K then do {
        (ret, s) \<leftarrow> resolve_svc_handler fuel K ''do_el0_svc'' ''do_el0_svc_compat'' (64 * 4) s;
        (if ret = 0 then Some s
         else do {
           (ret, s) \<leftarrow> resolve_svc_handler fuel K ''el0_svc_handler'' ''el0_svc_compat_handler'' (64 * 4) s;
           (if ret = 0 then Some s
            else map_option snd (resolve_svc_handler fuel K ''el0_svc'' ''el0_svc_compat'' (256 * 4) s))
         })
      }
      else map_option snd (resolve_svc_handler fuel K ''el0_svc'' ''el0_svc_compat'' (16 * 4) s))
   }"

definition lkm_template_init :: "nat \<Rightarrow> kernel_api \<Rightarrow> lkm \<Rightarrow> (cint \<times> lkm) option" where
  "lkm_template_init fuel K s = do {
     let s = say HelloWorld s;
     (ret, s) \<leftarrow> lkm_boostrap K s;
     s \<leftarrow> (if ret = 0 then hunt_sys_call_table fuel K s else Some s);
     Some (- 11, s)
   }"

definition lkm_template_exit :: "lkm \<Rightarrow> lkm" where
  "lkm_template_exit s = say Goodbye s"

section \<open>The scan as a search over a list of addresses\<close>

text \<open>What a probe finds does not depend on the module state, which only grows its log.\<close>

definition scan_result :: "kernel_api \<Rightarrow> u64 \<Rightarrow> (u64 \<times> string) option" where
  "scan_result K p = fst (scan_probe K p fresh_lkm)"

definition ring :: "u64 \<Rightarrow> nat \<Rightarrow> u64 list" where
  "ring a k = [a + 64 * of_nat k, a - 64 * of_nat k]"

definition scan_order :: "u64 \<Rightarrow> u64 list" where
  "scan_order a = a # concat (map (ring a) [1..<max_iter])"

definition first_hit :: "kernel_api \<Rightarrow> u64 list \<Rightarrow> (u64 \<times> string) option" where
  "first_hit K ps = Option.bind (List.find (\<lambda>p. scan_result K p \<noteq> None) ps) (scan_result K)"

text \<open>The function pointers; two states with the same pointers differ in their logs only.\<close>

definition pointers :: "lkm \<Rightarrow> u64 \<times> u64 \<times> u64 \<times> u64" where
  "pointers s = (kallsyms_lookup_name_fn s, register_kprobe_fn s, unregister_kprobe_fn s,
                 aarch64_insn_adrp_get_offset_fn s)"

lemma pointers_say [simp]: "pointers (say e s) = pointers s"
  by (simp add: pointers_def say_def)

lemma say_fields [simp]:
  "kallsyms_lookup_name_fn (say e s) = kallsyms_lookup_name_fn s"
  "register_kprobe_fn (say e s) = register_kprobe_fn s"
  "unregister_kprobe_fn (say e s) = unregister_kprobe_fn s"
  "aarch64_insn_adrp_get_offset_fn (say e s) = aarch64_insn_adrp_get_offset_fn s"
  "klog (say e s) = klog s @ [e]"
  by (simp_all add: say_def)

lemma pointers_fields:
  assumes "pointers s = pointers s'"
  shows "kallsyms_lookup_name_fn s = kallsyms_lookup_name_fn s'"
    and "register_kprobe_fn s = register_kprobe_fn s'"
    and "unregister_kprobe_fn s = unregister_kprobe_fn s'"
    and "aarch64_insn_adrp_get_offset_fn s = aarch64_insn_adrp_get_offset_fn s'"
  using assms by (simp_all add: pointers_def)

lemma found_candidate_result: "fst (found_candidate K cur buf s) = fst (found_candidate K cur buf s')"
  by (auto simp: found_candidate_def Let_def split: option.splits prod.splits)

lemma found_candidate_pointers: "pointers (snd (found_candidate K cur buf s)) = pointers s"
  by (auto simp: found_candidate_def Let_def split: option.splits prod.splits)

lemma scan_probe_result: "fst (scan_probe K p s) = scan_result K p"
  by (auto simp: scan_result_def scan_probe_def Let_def split: prod.splits
      intro: found_candidate_result)

lemma scan_probe_pointers: "pointers (snd (scan_probe K p s)) = pointers s"
  by (auto simp: scan_probe_def Let_def found_candidate_pointers split: prod.splits)

lemma found_candidate_test:
  "fst (found_candidate K cur buf s) = Some (q, b) \<Longrightarrow>
     b = snd (k_sprint_symbol K q) \<and> 0 <s fst (k_sprint_symbol K q) \<and> strstr b ''+0x0''"
  by (auto simp: found_candidate_def Let_def split: option.splits prod.splits if_splits)

lemma scan_result_test:
  assumes "scan_result K p = Some (q, b)"
  shows "b = snd (k_sprint_symbol K q)" "0 <s fst (k_sprint_symbol K q)" "strstr b ''+0x0''"
  using assms found_candidate_test [where K = K and cur = p and s = fresh_lkm]
  by (auto simp: scan_result_def scan_probe_def Let_def split: prod.splits if_splits)

lemma first_hit_Cons:
  "first_hit K (p # ps) = (case scan_result K p of None \<Rightarrow> first_hit K ps | Some x \<Rightarrow> Some x)"
  by (simp add: first_hit_def split: option.splits)

lemma first_hit_Nil [simp]: "first_hit K [] = None"
  by (simp add: first_hit_def)

text \<open>The two states of the scan at distance \<open>k\<close>: above and below the anchor.\<close>

definition scan_above :: "u64 \<Rightarrow> nat \<Rightarrow> radiating" where
  "scan_above a k = \<lparr>r_iter = k, r_curr = a + 64 * of_nat k, r_up = False, r_high = a - 64 * of_nat (k - 1),
                r_low = (if 2 \<le> k then a + 64 * of_nat (k - 1) else 0)\<rparr>"

definition scan_below :: "u64 \<Rightarrow> nat \<Rightarrow> radiating" where
  "scan_below a k = \<lparr>r_iter = k, r_curr = a - 64 * of_nat k, r_up = True, r_high = a - 64 * of_nat (k - 1),
                r_low = a + 64 * of_nat k\<rparr>"

lemma scan_inc_start: "scan_inc a (scan_start a) = scan_above a 1"
  by (simp add: scan_inc_def scan_start_def scan_above_def)

lemma scan_inc_above: "scan_inc a (scan_above a k) = scan_below a k"
  by (simp add: scan_inc_def scan_above_def scan_below_def)

lemma scan_inc_below: "1 \<le> k \<Longrightarrow> scan_inc a (scan_below a k) = scan_above a (Suc k)"
  by (simp add: scan_inc_def scan_above_def scan_below_def)

definition scan_outcome :: "cint \<times> lkm \<Rightarrow> (u64 \<times> string) option \<Rightarrow> lkm \<Rightarrow> u64 \<Rightarrow> bool" where
  "scan_outcome r hit s a \<longleftrightarrow>
     (case hit of
        Some (q, b) \<Rightarrow> fst r = 0 \<and> pointers (snd r) = pointers (s\<lparr>kallsyms_lookup_name_fn := q\<rparr>)
      | None \<Rightarrow> fst r = - 34 \<and> pointers (snd r) = pointers s \<and>
          last (klog (snd r)) = ScanFail max_iter (a - 64 * of_nat (max_iter - 1)) (a + 64 * of_nat (max_iter - 1)))"

lemma scan_outcome_pointers:
  "pointers s = pointers s' \<Longrightarrow> scan_outcome r h s a \<longleftrightarrow> scan_outcome r h s' a"
  by (auto simp: scan_outcome_def pointers_def split: option.splits)

lemma start_r_probe:
  assumes "r_iter r < max_iter"
    and "\<And>s. scan_outcome (start_r K a (scan_inc a r) s) (first_hit K ps) s a"
  shows "scan_outcome (start_r K a r s) (first_hit K (r_curr r # ps)) s a"
proof (cases "scan_probe K (r_curr r) s")
  case (Pair res s')
  then have s': "pointers s' = pointers s" and res: "res = scan_result K (r_curr r)"
    using scan_probe_pointers [of K "r_curr r" s] scan_probe_result [of K "r_curr r" s] by simp_all
  show ?thesis
  proof (cases res)
    case None
    then show ?thesis
      using assms(2) [of s'] assms(1) Pair res scan_outcome_pointers [OF s']
      by (subst start_r.simps) (simp add: first_hit_Cons)
  next
    case (Some x)
    then show ?thesis
      using assms(1) Pair res s'
      by (subst start_r.simps) (auto simp: first_hit_Cons scan_outcome_def pointers_def split: prod.splits)
  qed
qed

lemma start_r_rings:
  assumes "1 \<le> k" and "k \<le> max_iter"
  shows "scan_outcome (start_r K a (scan_above a k) s) (first_hit K (concat (map (ring a) [k..<max_iter]))) s a"
  using assms
proof (induction "max_iter - k" arbitrary: k s)
  case 0
  then have k: "k = max_iter" by simp
  have "start_r K a (scan_above a max_iter) s =
      (- 34, say (ScanFail max_iter (a - 64 * of_nat (max_iter - 1)) (a + 64 * of_nat (max_iter - 1))) s)"
    by (subst start_r.simps) (simp add: scan_above_def max_iter_def)
  then show ?case using k by (simp add: scan_outcome_def)
next
  case (Suc n)
  then have k: "1 \<le> k" "k < max_iter" by auto
  have rings: "concat (map (ring a) [k..<max_iter]) =
      (a + 64 * of_nat k) # (a - 64 * of_nat k) # concat (map (ring a) [Suc k..<max_iter])"
    using k by (simp add: upt_conv_Cons ring_def)
  have "scan_outcome (start_r K a (scan_above a (Suc k)) s) (first_hit K (concat (map (ring a) [Suc k..<max_iter]))) s a" for s
    using Suc k by (intro Suc.hyps(1)) auto
  then have "scan_outcome (start_r K a (scan_below a k) s) (first_hit K (r_curr (scan_below a k) # concat (map (ring a) [Suc k..<max_iter]))) s a" for s
    using k by (intro start_r_probe) (simp_all add: scan_inc_below, simp add: scan_below_def)
  then have "scan_outcome (start_r K a (scan_above a k) s) (first_hit K (r_curr (scan_above a k) # r_curr (scan_below a k) # concat (map (ring a) [Suc k..<max_iter]))) s a"
    using k by (intro start_r_probe) (simp_all add: scan_inc_above, simp add: scan_above_def)
  then show ?case by (simp add: rings scan_above_def scan_below_def)
qed

lemma bootstrap_outcome:
  "scan_outcome (bootstrap_kallsyms_lookup_name K a s) (first_hit K (scan_order a)) s a"
proof -
  have "scan_outcome (start_r K a (scan_start a) s)
      (first_hit K (r_curr (scan_start a) # concat (map (ring a) [1..<max_iter]))) s a"
    by (rule start_r_probe)
       (simp add: scan_start_def max_iter_def, simp only: scan_inc_start, rule start_r_rings,
        simp_all add: max_iter_def)
  then show ?thesis
    by (simp add: bootstrap_kallsyms_lookup_name_def scan_order_def scan_start_def)
qed

text \<open>
  C8: the radiating scan examines the anchor, then the addresses 64 bytes further out on either
  side in turn, 399999 rings of them, and installs the first address at which the symbol test
  succeeds; when none does it returns -ERANGE, leaves every function pointer as it was, and logs
  the two ends of the range it covered, the lower end first.
\<close>

theorem bootstrap_finds_first:
  "let (ret, s') = bootstrap_kallsyms_lookup_name K anchor s
   in case Option.bind (List.find (\<lambda>p. scan_result K p \<noteq> None) (scan_order anchor)) (scan_result K) of
        Some (q, b) \<Rightarrow> ret = 0 \<and> pointers s' = pointers (s\<lparr>kallsyms_lookup_name_fn := q\<rparr>)
      | None \<Rightarrow> ret = - 34 \<and> pointers s' = pointers s \<and>
          last (klog s') = ScanFail 400000 (anchor - 64 * 399999) (anchor + 64 * 399999)"
  using bootstrap_outcome [of K anchor s]
  by (auto simp: scan_outcome_def first_hit_def max_iter_def split: option.splits prod.splits)

section \<open>Symbol texts\<close>

text \<open>
  The documented behaviour of the kernel functions the module depends on: \<open>sprint_symbol\<close>
  prints a symbol as name, offset and size in hexadecimal and returns the length;
  \<open>kstrtoul\<close> in base 0 reads such a number.
\<close>

definition symbol_text :: "string \<Rightarrow> nat \<Rightarrow> nat \<Rightarrow> string" where
  "symbol_text name off sz = name @ ''+0x'' @ show_base 16 off @ ''/0x'' @ show_base 16 sz"

definition prints_symbol :: "kernel_api \<Rightarrow> u64 \<Rightarrow> nat \<Rightarrow> string \<Rightarrow> bool" where
  "prints_symbol K base sz name \<longleftrightarrow>
     (\<forall>off < sz. k_sprint_symbol K (base + of_nat off) =
        (of_nat (length (symbol_text name off sz)), symbol_text name off sz))"

definition parses_hex :: "kernel_api \<Rightarrow> bool" where
  "parses_hex K \<longleftrightarrow>
     (\<forall>n. k_kstrtoul K (''0x'' @ show_base 16 n) = (if n < 2 ^ 64 then Some (of_nat n) else None))"

lemma strchr_found: "c \<notin> set xs \<Longrightarrow> strchr (xs @ c # ys) c = Some (length xs)"
  by (induction xs) auto

lemma strstarts_append: "strstarts (p @ ys) p"
  by (simp add: strstarts_def)

lemma strstr_append: "strstr (xs @ p @ ys) p"
proof (induction xs)
  case Nil
  then show ?case using strstarts_append [of p ys] by (cases "p @ ys") simp_all
qed simp

definition symbol_head :: "string \<Rightarrow> nat \<Rightarrow> string" where
  "symbol_head name off = name @ ''+0x'' @ show_base 16 off"

lemma symbol_text_split:
  "symbol_text name off sz = symbol_head name off @ CHR ''/'' # (''0x'' @ show_base 16 sz)"
  "symbol_head name off = name @ CHR ''+'' # (''0x'' @ show_base 16 off)"
  by (simp_all add: symbol_text_def symbol_head_def)

lemma symbol_text_simps:
  assumes "CHR ''/'' \<notin> set name" and "CHR ''+'' \<notin> set name"
  shows "strchr (symbol_text name off sz) CHR ''/'' = Some (length (symbol_head name off))"
    and "take (length (symbol_head name off)) (symbol_text name off sz) = symbol_head name off"
    and "drop (Suc (length (symbol_head name off))) (symbol_text name off sz) = ''0x'' @ show_base 16 sz"
    and "strchr (symbol_head name off) CHR ''+'' = Some (length name)"
    and "drop (Suc (length name)) (symbol_head name off) = ''0x'' @ show_base 16 off"
proof -
  have "CHR ''/'' \<notin> set (symbol_head name off)"
    using assms by (simp add: symbol_head_def show_base_chars)
  then show "strchr (symbol_text name off sz) CHR ''/'' = Some (length (symbol_head name off))"
    unfolding symbol_text_split(1) by (rule strchr_found)
  show "strchr (symbol_head name off) CHR ''+'' = Some (length name)"
    unfolding symbol_text_split(2) using assms by (intro strchr_found)
qed (simp_all add: symbol_text_split(1), simp add: symbol_text_split(2))

lemma symbol_text_length:
  assumes "off < 2 ^ 64" and "sz < 2 ^ 64"
  shows "length name + 8 \<le> length (symbol_text name off sz)"
    and "length (symbol_text name off sz) \<le> length name + 38"
proof -
  have "length (show_base 16 off) \<le> 16" "length (show_base 16 sz) \<le> 16"
    using length_digits_le [of 16 _ 16] assms by (simp_all add: show_base_def)
  moreover have "show_base 16 off \<noteq> []" "show_base 16 sz \<noteq> []"
    by (simp_all add: show_base_def)
  ultimately show "length name + 8 \<le> length (symbol_text name off sz)"
    and "length (symbol_text name off sz) \<le> length name + 38"
    by (auto simp: symbol_text_def Suc_le_eq simp flip: length_greater_0_conv)
qed

lemma symbol_text_zero: "strstr (symbol_text name 0 sz) ''+0x0''"
  using strstr_append [of name "''+0x0''" "''/0x'' @ show_base 16 sz"]
  by (simp add: symbol_text_def show_base_zero)

lemma small_int_of_nat:
  assumes "n < 2 ^ 31"
  shows "(scast (of_nat n :: cint) :: u64) = of_nat n" and "0 < n \<Longrightarrow> 0 <s (of_nat n :: cint)"
proof -
  have "sint (of_nat n :: cint) = int n"
    using assms by (simp add: sint_uint uint_nat unat_of_nat take_bit_nat_eq_self signed_take_bit_eq_if_positive
        bit_iff_odd take_bit_int_eq_self_iff)
  then show "(scast (of_nat n :: cint) :: u64) = of_nat n" "0 < n \<Longrightarrow> 0 <s (of_nat n :: cint)"
    by (simp_all add: scast_eq word_sless_alt)
qed

text \<open>A 64-byte stretch on the grid: every function of that size near the anchor is hit.\<close>

lemma scan_order_hits:
  fixes z :: int
  assumes "\<bar>z\<bar> \<le> 64 * 399999"
  shows "\<exists>off<64. anchor + of_int z + of_nat off \<in> set (scan_order anchor)"
proof -
  define k where "k = (z + 63) div 64"
  have off: "0 \<le> 64 * k - z" "64 * k - z < 64" unfolding k_def by simp_all
  have k: "\<bar>k\<bar> \<le> 399999" using assms off by linarith
  have mem: "anchor + 64 * of_int k \<in> set (scan_order anchor)"
  proof (cases "k = 0")
    case False
    then have "nat \<bar>k\<bar> \<in> set [1..<max_iter]" using k by (auto simp: max_iter_def)
    moreover have "anchor + 64 * of_int k \<in> set (ring anchor (nat \<bar>k\<bar>))"
      by (cases "0 \<le> k") (simp_all add: ring_def of_nat_nat)
    ultimately show ?thesis by (auto simp: scan_order_def simp del: set_upt)
  qed (simp add: scan_order_def)
  have "anchor + of_int z + of_nat (nat (64 * k - z)) = anchor + 64 * of_int k"
    using off by (simp add: of_nat_nat)
  with mem off show ?thesis
    by (intro exI [of _ "nat (64 * k - z)"]) auto
qed

lemma first_hit_unique:
  assumes "\<And>p q. scan_result K p = Some q \<Longrightarrow> fst q = base"
    and "p \<in> set ps" and "scan_result K p \<noteq> None"
  shows "\<exists>b. first_hit K ps = Some (base, b)"
  using assms(2,3)
proof (induction ps)
  case (Cons x xs)
  show ?case
  proof (cases "scan_result K x")
    case None
    with Cons show ?thesis by (auto simp: first_hit_Cons)
  next
    case (Some y)
    with assms(1) [OF Some] show ?thesis by (cases y) (simp add: first_hit_Cons)
  qed
qed simp

text \<open>Inside the printed range of \<open>kallsyms_lookup_name\<close> every probe leads to its start.\<close>

lemma scan_result_inside:
  assumes sym: "prints_symbol K base sz ''kallsyms_lookup_name''" and hex: "parses_hex K"
    and off: "off < sz" and sz: "sz < 2 ^ 64"
    and rd: "copy_from_kernel_nofault K (base + of_nat off) 4 \<noteq> None"
  shows "\<exists>b. scan_result K (base + of_nat off) = Some (base, b)"
proof -
  let ?name = "''kallsyms_lookup_name''"
  let ?t = "\<lambda>off. symbol_text ?name off sz"
  have print: "k_sprint_symbol K (base + of_nat i) = (of_nat (length (?t i)), ?t i)" if "i < sz" for i
    using sym that by (simp add: prints_symbol_def)
  have print0: "k_sprint_symbol K base = (of_nat (length (?t 0)), ?t 0)"
    using print [of 0] off by simp
  have lens: "28 \<le> length (?t i)" "length (?t i) \<le> 58" if "i < sz" for i
    using symbol_text_length [of i sz ?name] that sz by simp_all
  have big: "\<not> (scast (of_nat (length (?t off)) :: cint) :: u64) < of_nat (length lookup_prefix + 1)"
    using lens [OF off] by (subst small_int_of_nat(1)) (auto simp: lookup_prefix_def word_less_nat_alt unat_of_nat)
  have starts: "strstarts (?t off) lookup_prefix"
    using strstarts_append [of lookup_prefix "''0x'' @ show_base 16 off @ ''/0x'' @ show_base 16 sz"]
    by (simp add: lookup_prefix_def symbol_text_def)
  have pos: "0 <s fst (k_sprint_symbol K base)"
  proof -
    have "length (?t 0) < 2147483648" "0 < length (?t 0)" using lens [of 0] off by linarith+
    then show ?thesis unfolding print0 fst_conv by (intro small_int_of_nat(2)) simp_all
  qed
  have hexoff: "k_kstrtoul K (''0x'' @ show_base 16 off) = Some (of_nat off)"
    using hex off sz by (simp add: parses_hex_def)
  have "fst (found_candidate K (base + of_nat off) (?t off) fresh_lkm) = Some (base, ?t 0)"
    unfolding found_candidate_def
    using symbol_text_simps [where name = ?name] hexoff pos print0 symbol_text_zero [of ?name sz]
    by (simp add: Let_def)
  then show ?thesis
    using rd big starts unfolding scan_result_def scan_probe_def
    by (simp add: print [OF off] Let_def)
qed

text \<open>
  C6: when \<open>kallsyms_lookup_name\<close> lies at most 25599936 bytes from the anchor, on either side,
  is at least 64 bytes (sixteen instructions) long and readable, and no other symbol is printed
  under that name, the scan succeeds and installs its address.
\<close>

theorem bootstrap_finds_kallsyms:
  assumes "prints_symbol K base sz ''kallsyms_lookup_name''" and "parses_hex K"
    and "64 \<le> sz" and "sz < 2 ^ 64"
    and "\<And>off. off < sz \<Longrightarrow> copy_from_kernel_nofault K (base + of_nat off) 4 \<noteq> None"
    and "\<And>p. strstarts (snd (k_sprint_symbol K p)) lookup_prefix \<Longrightarrow> \<exists>off < sz. p = base + of_nat off"
    and "base = anchor + of_int z" and "\<bar>z\<bar> \<le> 64 * 399999"
  shows "fst (bootstrap_kallsyms_lookup_name K anchor s) = 0 \<and>
    kallsyms_lookup_name_fn (snd (bootstrap_kallsyms_lookup_name K anchor s)) = base"
proof -
  note inside = scan_result_inside [OF assms(1,2) _ assms(4,5)]
  have "fst q = base" if "scan_result K p = Some q" for p q
  proof -
    have "strstarts (snd (k_sprint_symbol K p)) lookup_prefix"
      using that by (auto simp: scan_result_def scan_probe_def Let_def split: prod.splits if_splits)
    then obtain off where "off < sz" "p = base + of_nat off" using assms(6) by blast
    then show ?thesis using inside [of off] that by auto
  qed
  moreover obtain off where "off < 64" "base + of_nat off \<in> set (scan_order anchor)"
    using scan_order_hits [OF assms(8), of anchor] assms(7) by auto
  moreover have "scan_result K (base + of_nat off) \<noteq> None"
    using inside [of off] \<open>off < 64\<close> assms(3) by auto
  ultimately obtain b where "first_hit K (scan_order anchor) = Some (base, b)"
    using first_hit_unique by metis
  then show ?thesis
    using bootstrap_outcome [of K anchor s] by (simp add: scan_outcome_def pointers_def)
qed

text \<open>
  An example kernel for the witnesses: one symbol of \<open>sz\<close> bytes at \<open>base\<close>, all memory readable
  as zero, every other address printed as a plain hexadecimal number.
\<close>

definition hex_kstrtoul :: "string \<Rightarrow> u64 option" where
  "hex_kstrtoul s =
     (if take 2 s = ''0x'' then
        (case read_base 16 (drop 2 s) of
           None \<Rightarrow> None
         | Some n \<Rightarrow> if n < 2 ^ 64 then Some (of_nat n) else None)
      else None)"

definition example_sprint :: "u64 \<Rightarrow> nat \<Rightarrow> string \<Rightarrow> u64 \<Rightarrow> cint \<times> string" where
  "example_sprint base sz name p =
     (let off = unat (p - base);
          buf = (if off < sz then symbol_text name off sz else ''0x'' @ show_base 16 (unat p))
      in (of_nat (length buf), buf))"

definition example_kernel :: "u64 \<Rightarrow> nat \<Rightarrow> string \<Rightarrow> kernel_api" where
  "example_kernel base sz name =
     \<lparr>k_version = KERNEL_VERSION 6 6 0, k_access = \<lparr>kernel_ds = False, pagefault_disabled = 0\<rparr>,
      k_copy_from_kernel_nofault = (\<lambda>p n. Some 0), k_copy_from_user_inatomic = (\<lambda>acc p n. (0, 0)),
      k_sprint_symbol_addr = base + 4096, k_sprint_symbol = example_sprint base sz name,
      k_kstrtoul = hex_kstrtoul, k_symbol_get = (\<lambda>name. 0),
      k_lookup_at = (\<lambda>fn name. 0), k_register_kprobe_at = (\<lambda>fn name. (0, 0)),
      k_adrp_offset_at = (\<lambda>fn insn. 0), k_insn_is_adrp = (\<lambda>insn. False), k_sym_storage = []\<rparr>"

lemma example_prints:
  assumes "sz < 2 ^ 64"
  shows "prints_symbol (example_kernel base sz name) base sz name"
  using assms
  by (auto simp: prints_symbol_def example_kernel_def example_sprint_def Let_def unat_of_nat take_bit_nat_eq_self)

lemma example_parses: "parses_hex (example_kernel base sz name)"
  by (simp add: parses_hex_def example_kernel_def hex_kstrtoul_def read_show_base)

lemma bootstrap_finds_kallsyms_witness:
  "let K = example_kernel 0x8000 200 ''kallsyms_lookup_name'';
       (ret, s') = bootstrap_kallsyms_lookup_name K 0x9000 fresh_lkm
   in ret = 0 \<and> kallsyms_lookup_name_fn s' = 0x8000"
proof -
  let ?K = "example_kernel 0x8000 200 ''kallsyms_lookup_name''"
  have "fst (bootstrap_kallsyms_lookup_name ?K 0x9000 fresh_lkm) = 0 \<and>
      kallsyms_lookup_name_fn (snd (bootstrap_kallsyms_lookup_name ?K 0x9000 fresh_lkm)) = 0x8000"
  proof (rule bootstrap_finds_kallsyms [OF example_prints example_parses, where z = "- 0x1000"])
    show "\<exists>off<200. p = 0x8000 + of_nat off"
      if "strstarts (snd (k_sprint_symbol ?K p)) lookup_prefix" for p
    proof (intro exI [of _ "unat (p - 0x8000)"] conjI)
      show "unat (p - 0x8000) < 200"
        using that by (auto simp: example_kernel_def example_sprint_def Let_def strstarts_def
            lookup_prefix_def split: if_splits)
    qed simp
  qed (simp_all add: example_kernel_def copy_from_kernel_nofault_def KERNEL_VERSION_def)
  then show ?thesis by (simp add: Let_def case_prod_unfold)
qed

section \<open>Symbol sizes\<close>

lemma sprint_positive:
  assumes "prints_symbol K base sz name" and "off < sz" and "sz < 2 ^ 64" and "length name < 512"
  shows "0 <s fst (k_sprint_symbol K (base + of_nat off))"
    and "snd (k_sprint_symbol K (base + of_nat off)) = symbol_text name off sz"
proof -
  have "length name + 8 \<le> length (symbol_text name off sz)" "length (symbol_text name off sz) \<le> length name + 38"
    using symbol_text_length [of off sz name] assms(2,3) by simp_all
  then have "0 < length (symbol_text name off sz)" "length (symbol_text name off sz) < 2147483648"
    using assms(4) by linarith+
  then show "0 <s fst (k_sprint_symbol K (base + of_nat off))"
    and "snd (k_sprint_symbol K (base + of_nat off)) = symbol_text name off sz"
    using assms(1,2) small_int_of_nat(2) [of "length (symbol_text name off sz)"]
    by (auto simp: prints_symbol_def)
qed

text \<open>
  C36: for an address inside a printed symbol \<open>compat_kallsyms_lookup_size_offset\<close> stores the
  size and the offset the kernel printed and returns 1, and \<open>get_ksym_size\<close> is the size.
\<close>

theorem ksym_size_of_symbol:
  assumes "prints_symbol K base sz name" and "parses_hex K" and "off < sz" and "sz < 2 ^ 64"
    and "length name < 512" and "CHR ''/'' \<notin> set name" and "CHR ''+'' \<notin> set name"
    and "base + of_nat off \<noteq> 0"
  shows "compat_kallsyms_lookup_size_offset K (base + of_nat off) u v = (1, of_nat sz, of_nat off) \<and>
    get_ksym_size K (base + of_nat off) retfail = of_nat sz"
proof -
  have hexes: "k_kstrtoul K (''0x'' @ show_base 16 n) = Some (of_nat n)" if "n < 2 ^ 64" for n
    using assms(2) that by (simp add: parses_hex_def)
  obtain r where r: "k_sprint_symbol K (base + of_nat off) = (r, symbol_text name off sz)" "0 <s r"
    using sprint_positive [OF assms(1,3,4,5)] by (metis prod.collapse)
  have main: "compat_kallsyms_lookup_size_offset K (base + of_nat off) u v = (1, of_nat sz, of_nat off)" for u v
    unfolding compat_kallsyms_lookup_size_offset_def
    using assms(8) r symbol_text_simps [where name = name, OF assms(6,7)] hexes [of sz] hexes [of off] assms(3,4)
    by (simp add: Let_def)
  moreover have "(of_nat sz :: u64) \<noteq> 0"
    using assms(3,4) by (auto simp: word_of_nat_eq_0_iff dest: dvd_imp_le)
  ultimately show ?thesis by (simp add: get_ksym_size_def)
qed

section \<open>The hunt as a search\<close>

text \<open>A slot is a hit when it holds a readable pointer that is printed as \<open>sys_io_setup\<close>.\<close>

definition slot_hit :: "kernel_api \<Rightarrow> u64 \<Rightarrow> bool" where
  "slot_hit K p =
     (case copy_from_kernel_nofault K p 8 of
        None \<Rightarrow> False
      | Some pbuf \<Rightarrow> copy_from_kernel_nofault K pbuf 8 \<noteq> None \<and>
          0 <s fst (k_sprint_symbol K pbuf) \<and> strstr (snd (k_sprint_symbol K pbuf)) ''sys_io_setup'')"

text \<open>An instruction is a hit when it is an \<open>adrp\<close> and a slot from its target on is one.\<close>

definition insn_hit :: "kernel_api \<Rightarrow> u64 \<Rightarrow> u64 \<Rightarrow> bool" where
  "insn_hit K fn p =
     (case copy_from_kernel_nofault K p 4 of
        None \<Rightarrow> False
      | Some w \<Rightarrow> k_insn_is_adrp K (ucast w) \<and>
          (\<exists>t\<le>512. slot_hit K ((p AND NOT 0xFFF) + scast (k_adrp_offset_at K fn (ucast w)) + 8 * of_nat t)))"

lemma ex_nat_split: "(\<exists>t. P t) \<longleftrightarrow> P 0 \<or> (\<exists>t. P (Suc t))"
  by (metis nat.exhaust)

lemma scan_pg_step:
  "scan_pg K tries cur s =
     (if tries > max_tries then (False, s)
      else if slot_hit K cur
        then (True, say (SctFound (snd (k_sprint_symbol K (the (copy_from_kernel_nofault K cur 8))))
                           (the (copy_from_kernel_nofault K cur 8)) cur) s)
      else scan_pg K (tries + 1) (cur + 8) s)"
  by (subst scan_pg.simps) (auto simp: slot_hit_def split: option.splits prod.splits)

lemma scan_pg_hits:
  assumes "tries \<le> Suc max_tries"
  shows "(fst (scan_pg K tries cur s) \<longleftrightarrow> (\<exists>t. tries + t \<le> max_tries \<and> slot_hit K (cur + 8 * of_nat t))) \<and>
    pointers (snd (scan_pg K tries cur s)) = pointers s"
  using assms
proof (induction "Suc max_tries - tries" arbitrary: tries cur)
  case 0
  then show ?case by (subst (1 2) scan_pg_step) auto
next
  case (Suc n)
  have le: "tries \<le> max_tries" "n = Suc max_tries - Suc tries" using Suc by auto
  have ex: "(\<exists>t. tries + t \<le> max_tries \<and> slot_hit K (cur + 8 * of_nat t)) \<longleftrightarrow>
      slot_hit K cur \<or> (\<exists>t. Suc tries + t \<le> max_tries \<and> slot_hit K (cur + 8 + 8 * of_nat t))"
    using le by (subst ex_nat_split) (simp add: algebra_simps)
  show ?case
    unfolding ex using Suc.hyps(1) [of "Suc tries" "cur + 8"] le by (subst (1 2) scan_pg_step) auto
qed

lemma insn_hit_scan_pg:
  "insn_hit K fn p \<longleftrightarrow>
     (case copy_from_kernel_nofault K p 4 of
        None \<Rightarrow> False
      | Some w \<Rightarrow> k_insn_is_adrp K (ucast w) \<and>
          fst (scan_pg K 0 ((p AND NOT 0xFFF) + scast (k_adrp_offset_at K fn (ucast w))) s))"
  using scan_pg_hits [of 0]
  by (simp add: insn_hit_def max_tries_def split: option.splits)

lemma pointers_say_update: "pointers s = pointers s' \<Longrightarrow> pointers (say e s) = pointers s'"
  by simp

lemma scan_insns_step:
  assumes "aarch64_insn_adrp_get_offset_fn s = fn" and "fn \<noteq> 0"
  shows "\<exists>s'. pointers s' = pointers s \<and>
    scan_insns (Suc fuel) K p e s =
      (if e \<le> p then Some (- 34, s')
       else if insn_hit K fn p then Some (0, s')
       else scan_insns fuel K (p + 4) e s')"
proof (cases "copy_from_kernel_nofault K p 4")
  case None
  then show ?thesis by (intro exI [of _ s]) (simp add: insn_hit_def)
next
  case (Some w)
  let ?raw = "ucast w :: u32"
  let ?tgt = "(p AND NOT 0xFFF) + scast (k_adrp_offset_at K fn ?raw)"
  let ?s = "say (Tgt ?tgt) (say (CallAdrpOffset fn ?raw) (say (AdrpAt p ?raw) s))"
  obtain found s' where pg: "scan_pg K 0 ?tgt ?s = (found, s')" by fastforce
  then have s': "pointers s' = pointers s" using scan_pg_hits [of 0 K ?tgt ?s] by simp
  show ?thesis
  proof (cases "k_insn_is_adrp K ?raw \<and> p < e")
    case True
    then have "insn_hit K fn p = found"
      using pg Some by (simp add: insn_hit_scan_pg [where s = ?s])
    with True s' show ?thesis
      using Some pg assms
      by (intro exI [of _ s']) (auto simp: call_adrp_get_offset_def Let_def not_le split: bool.splits)
  next
    case False
    then show ?thesis using Some by (intro exI [of _ s]) (auto simp: insn_hit_def)
  qed
qed

lemma scan_insns_hits:
  assumes "aarch64_insn_adrp_get_offset_fn s = fn" and "fn \<noteq> 0"
    and "0 < fuel" and "unat e + 4 \<le> unat p + 4 * fuel" and "unat e + 4 \<le> 2 ^ 64"
  shows "\<exists>s'. pointers s' = pointers s \<and>
    scan_insns fuel K p e s =
      Some (if \<exists>i. unat p + 4 * i < unat e \<and> insn_hit K fn (p + 4 * of_nat i) then 0 else - 34, s')"
  using assms
proof (induction fuel arbitrary: p s)
  case (Suc fuel)
  obtain s1 where s1: "pointers s1 = pointers s"
    "scan_insns (Suc fuel) K p e s =
      (if e \<le> p then Some (- 34, s1) else if insn_hit K fn p then Some (0, s1)
       else scan_insns fuel K (p + 4) e s1)"
    using scan_insns_step [OF Suc.prems(1,2)] by metis
  show ?case
  proof (cases "e \<le> p")
    case True
    then have "unat e \<le> unat p" by (simp add: word_le_nat_alt)
    with True s1 show ?thesis by (intro exI [of _ s1]) auto
  next
    case False
    then have lt: "unat p < unat e" by (simp add: word_le_nat_alt)
    then have p4: "unat (p + 4) = unat p + 4" using Suc.prems(5) by (subst unat_add_lem [THEN iffD1]) simp_all
    have ex: "(\<exists>i. unat p + 4 * i < unat e \<and> insn_hit K fn (p + 4 * of_nat i)) \<longleftrightarrow>
        insn_hit K fn p \<or> (\<exists>i. unat (p + 4) + 4 * i < unat e \<and> insn_hit K fn (p + 4 + 4 * of_nat i))"
      using lt by (subst ex_nat_split) (simp add: p4 algebra_simps)
    show ?thesis
    proof (cases "insn_hit K fn p")
      case True
      with False s1 show ?thesis unfolding ex by (intro exI [of _ s1]) simp
    next
      case nohit: False
      have "aarch64_insn_adrp_get_offset_fn s1 = fn" using s1(1) Suc.prems(1) pointers_fields(4) by metis
      then obtain s' where "pointers s' = pointers s1"
        "scan_insns fuel K (p + 4) e s1 =
          Some (if \<exists>i. unat (p + 4) + 4 * i < unat e \<and> insn_hit K fn (p + 4 + 4 * of_nat i) then 0 else - 34, s')"
        using Suc.IH [of s1 "p + 4"] Suc.prems lt p4 by fastforce
      with False nohit s1 show ?thesis unfolding ex by (intro exI [of _ s']) simp
    qed
  qed
qed simp

lemma insn_hit_ex:
  "insn_hit K fn p \<longleftrightarrow>
     (\<exists>t w. t < 513 \<and> copy_from_kernel_nofault K p 4 = Some w \<and> k_insn_is_adrp K (ucast w) \<and>
        slot_hit K ((p AND NOT 0xFFF) + scast (k_adrp_offset_at K fn (ucast w)) + 8 * of_nat t))"
proof -
  have "t < 513 \<longleftrightarrow> t \<le> 512" for t :: nat by linarith
  then show ?thesis by (auto simp: insn_hit_def split: option.splits)
qed

lemma hunt_hits:
  assumes "aarch64_insn_adrp_get_offset_fn s = fn" and "fn \<noteq> 0"
    and "unat depth div 4 + 2 \<le> fuel" and "unat start + unat depth + 4 \<le> 2 ^ 64"
  shows "\<exists>s'. pointers s' = pointers s \<and>
    hunt_sct_adrp fuel K start depth s =
      Some (if \<exists>i. 4 * i < unat depth \<and> insn_hit K fn (start + 4 * of_nat i) then 0 else - 34, s')"
proof -
  have "unat (start + depth) = unat start + unat depth"
    using assms(4) by (subst unat_add_lem [THEN iffD1]) simp_all
  moreover have "unat depth + 4 \<le> 4 * fuel" using assms(3) by linarith
  ultimately show ?thesis
    unfolding hunt_sct_adrp_def
    using scan_insns_hits [OF assms(1,2), of fuel "start + depth" start K] assms(3,4) by simp
qed

text \<open>
  C9: with fuel for every instruction of a range that does not wrap around, the hunt ends; it
  returns 0 exactly when some 4-byte step of the range holds an \<open>adrp\<close> from whose target one of
  513 consecutive slots (one more than a page has) leads to \<open>sys_io_setup\<close>, and -ERANGE
  otherwise; the function pointers do not change.
\<close>

theorem hunt_finds_table:
  assumes "aarch64_insn_adrp_get_offset_fn s \<noteq> 0"
    and "unat depth div 4 + 2 \<le> fuel" and "unat start + unat depth + 4 \<le> 2 ^ 64"
  shows "map_option (\<lambda>(ret, s'). (ret, pointers s')) (hunt_sct_adrp fuel K start depth s) =
    Some (if \<exists>i t w. 4 * i < unat depth \<and> t < 513 \<and>
              copy_from_kernel_nofault K (start + 4 * of_nat i) 4 = Some w \<and> k_insn_is_adrp K (ucast w) \<and>
              slot_hit K ((start + 4 * of_nat i AND NOT 0xFFF) +
                scast (k_adrp_offset_at K (aarch64_insn_adrp_get_offset_fn s) (ucast w)) + 8 * of_nat t)
          then 0 else - 34, pointers s)"
proof -
  have conv: "(\<exists>i t w. 4 * i < unat depth \<and> t < 513 \<and>
            copy_from_kernel_nofault K (start + 4 * of_nat i) 4 = Some w \<and> k_insn_is_adrp K (ucast w) \<and>
            slot_hit K ((start + 4 * of_nat i AND NOT 0xFFF) +
              scast (k_adrp_offset_at K (aarch64_insn_adrp_get_offset_fn s) (ucast w)) + 8 * of_nat t)) \<longleftrightarrow>
        (\<exists>i. 4 * i < unat depth \<and> insn_hit K (aarch64_insn_adrp_get_offset_fn s) (start + 4 * of_nat i))"
    unfolding insn_hit_ex by blast
  show ?thesis unfolding conv using hunt_hits [OF refl assms, of K] by auto
qed

text \<open>
  A kernel with one \<open>adrp\<close> at 0x1000 to the page 0x2000, whose slots point to themselves; only
  the slot after the page, at 0x3000, is printed as the first system call.
\<close>

definition adrp_kernel :: kernel_api where
  "adrp_kernel = (example_kernel 0x3000 8 ''__arm64_sys_io_setup'')
     \<lparr>k_copy_from_kernel_nofault := (\<lambda>p n. if n = 4 then Some (if p = 0x1000 then 1 else 0) else Some p),
      k_adrp_offset_at := (\<lambda>fn insn. 0x1000), k_insn_is_adrp := (\<lambda>insn. insn = 1)\<rparr>"

lemma adrp_kernel_slot: "slot_hit adrp_kernel 0x3000"
proof -
  have "snd (k_sprint_symbol adrp_kernel 0x3000) = symbol_text ''__arm64_sys_io_setup'' 0 8"
    "0 <s fst (k_sprint_symbol adrp_kernel 0x3000)"
    using sprint_positive [OF example_prints, where off = 0 and sz = 8 and base = "0x3000" and name = "''__arm64_sys_io_setup''"]
    by (simp_all add: adrp_kernel_def example_kernel_def)
  moreover have "strstr (symbol_text ''__arm64_sys_io_setup'' 0 8) ''sys_io_setup''"
    by (simp add: symbol_text_def strstarts_def)
  ultimately show ?thesis
    by (simp add: slot_hit_def copy_from_kernel_nofault_def adrp_kernel_def example_kernel_def KERNEL_VERSION_def)
qed

lemma hunt_finds_table_witness:
  "map_option fst (hunt_sct_adrp 100 adrp_kernel 0x0ff0 200 (fresh_lkm\<lparr>aarch64_insn_adrp_get_offset_fn := 1\<rparr>))
   = Some 0"
proof -
  let ?s = "fresh_lkm\<lparr>aarch64_insn_adrp_get_offset_fn := 1\<rparr>"
  have "\<exists>i t w. 4 * i < unat (200 :: u64) \<and> t < 513 \<and>
      copy_from_kernel_nofault adrp_kernel (0x0ff0 + 4 * of_nat i) 4 = Some w \<and> k_insn_is_adrp adrp_kernel (ucast w) \<and>
      slot_hit adrp_kernel ((0x0ff0 + 4 * of_nat i AND NOT 0xFFF) +
        scast (k_adrp_offset_at adrp_kernel (aarch64_insn_adrp_get_offset_fn ?s) (ucast w)) + 8 * of_nat t)"
    using adrp_kernel_slot
    by (intro exI [of _ 4] exI [of _ 512] exI [of _ 1])
       (simp add: copy_from_kernel_nofault_def adrp_kernel_def example_kernel_def KERNEL_VERSION_def)
  then show ?thesis
    using hunt_finds_table [of ?s 200 100 "0x0ff0" adrp_kernel] by (auto simp: map_option_case split: option.splits)
qed

section \<open>The module from load to return\<close>

text \<open>
  Fuel for the ranges the module hunts through: the lookup of any name, at any of the sizes the
  code falls back to, gives a range that does not wrap around.
\<close>

definition hunt_bounded :: "nat \<Rightarrow> kernel_api \<Rightarrow> bool" where
  "hunt_bounded fuel K \<longleftrightarrow>
     (\<forall>fn name d. d \<le> 1024 \<longrightarrow>
        (let start = k_lookup_at K fn name;
             depth = get_ksym_size K start d
         in unat start + unat depth + 4 \<le> 2 ^ 64 \<and> unat depth div 4 + 2 \<le> fuel))"

lemma call_lookup_Some:
  "kallsyms_lookup_name_fn s \<noteq> 0 \<Longrightarrow>
     \<exists>s'. call_kallsyms_lookup_name K name s = Some (k_lookup_at K (kallsyms_lookup_name_fn s) name, s') \<and>
       pointers s' = pointers s"
  by (simp add: call_kallsyms_lookup_name_def Let_def)

lemma kp_kallsyms_lookup_name_run:
  assumes "register_kprobe_fn s \<noteq> 0" and "unregister_kprobe_fn s \<noteq> 0"
    and "k_register_kprobe_at K (register_kprobe_fn s) name = (ret, addr)"
  shows "kp_kallsyms_lookup_name K name s =
    (if ret \<noteq> 0 then Some (0, say (CallRegister (register_kprobe_fn s) name ret) s)
     else Some (addr, say (KpSuccess name addr) (say (CallUnregister (unregister_kprobe_fn s))
            (say (CallRegister (register_kprobe_fn s) name 0) s))))"
  using assms by (simp add: kp_kallsyms_lookup_name_def register_kprobe_def unregister_kprobe_def Let_def)

lemma lkm_found_run:
  assumes "kallsyms_lookup_name_fn s \<noteq> 0"
  shows "\<exists>s'. lkm_found K name s = Some (0, s') \<and> pointers s' = pointers s"
  using assms
  by (auto simp: lkm_found_def call_kallsyms_lookup_name_def Let_def split: prod.splits)

lemma lkm_scan_run:
  assumes "\<not> strstr (snd (k_sprint_symbol K 0)) ''+0x0''"
  shows "\<exists>r s'. lkm_scan K s = Some (r, s') \<and> (r = 0 \<longrightarrow> kallsyms_lookup_name_fn s' \<noteq> 0)"
proof -
  obtain ret s1 where b: "bootstrap_kallsyms_lookup_name K (k_sprint_symbol_addr K)
      (say (ScanFrom (k_sprint_symbol_addr K)) s) = (ret, s1)" by fastforce
  show ?thesis
  proof (cases "ret = 0")
    case True
    then obtain q t where "first_hit K (scan_order (k_sprint_symbol_addr K)) = Some (q, t)"
      and q: "kallsyms_lookup_name_fn s1 = q"
      using bootstrap_outcome [of K "k_sprint_symbol_addr K" "say (ScanFrom (k_sprint_symbol_addr K)) s"] b
      by (auto simp: scan_outcome_def pointers_def split: option.splits)
    then obtain p where "scan_result K p = Some (q, t)"
      by (auto simp: first_hit_def bind_eq_Some_conv)
    then have "strstr (snd (k_sprint_symbol K q)) ''+0x0''" using scan_result_test(1,3) by blast
    then have "kallsyms_lookup_name_fn s1 \<noteq> 0" using assms q by auto
    moreover from this obtain s2 where "lkm_found K ''sprint_symbol'' s1 = Some (0, s2)" and p2: "pointers s2 = pointers s1"
      using lkm_found_run by blast
    ultimately show ?thesis
      using b True pointers_fields(1) [OF p2] by (simp add: lkm_scan_def Let_def)
  next
    case False
    then show ?thesis using b by (simp add: lkm_scan_def Let_def)
  qed
qed

lemma lkm_boostrap_run:
  assumes "\<not> strstr (snd (k_sprint_symbol K 0)) ''+0x0''"
  shows "\<exists>r s'. lkm_boostrap K s = Some (r, s') \<and> (r = 0 \<longrightarrow> kallsyms_lookup_name_fn s' \<noteq> 0)"
proof -
  define s1 where "s1 = s\<lparr>register_kprobe_fn := k_symbol_get K ''register_kprobe'',
                          unregister_kprobe_fn := k_symbol_get K ''unregister_kprobe''\<rparr>"
  have boot: "lkm_boostrap K s =
      (if register_kprobe_fn s1 = 0 \<or> unregister_kprobe_fn s1 = 0 then lkm_scan K (say KprobeMissing s1)
       else do {
         (a, s) \<leftarrow> kp_kallsyms_lookup_name K ''kallsyms_lookup_name'' s1;
         (if a \<noteq> 0 then lkm_found K (k_sym_storage K) (s\<lparr>kallsyms_lookup_name_fn := a\<rparr>)
          else lkm_scan K (s\<lparr>kallsyms_lookup_name_fn := a\<rparr>))
       })"
    by (simp add: lkm_boostrap_def s1_def Let_def)
  show ?thesis
  proof (cases "register_kprobe_fn s1 = 0 \<or> unregister_kprobe_fn s1 = 0")
    case True
    then show ?thesis using lkm_scan_run [OF assms] by (simp add: boot)
  next
    case False
    obtain ret addr where "k_register_kprobe_at K (register_kprobe_fn s1) ''kallsyms_lookup_name'' = (ret, addr)"
      by fastforce
    from kp_kallsyms_lookup_name_run [OF _ _ this] False obtain a s2
      where "kp_kallsyms_lookup_name K ''kallsyms_lookup_name'' s1 = Some (a, s2)" by metis
    with False have run: "lkm_boostrap K s =
        (if a \<noteq> 0 then lkm_found K (k_sym_storage K) (s2\<lparr>kallsyms_lookup_name_fn := a\<rparr>)
         else lkm_scan K (s2\<lparr>kallsyms_lookup_name_fn := a\<rparr>))"
      by (simp add: boot)
    show ?thesis
    proof (cases "a = 0")
      case True
      then show ?thesis using lkm_scan_run [OF assms] by (simp add: run)
    next
      case False
      then have "kallsyms_lookup_name_fn (s2\<lparr>kallsyms_lookup_name_fn := a\<rparr>) \<noteq> 0" by simp
      then obtain s3 where "lkm_found K (k_sym_storage K) (s2\<lparr>kallsyms_lookup_name_fn := a\<rparr>) = Some (0, s3)"
        "kallsyms_lookup_name_fn s3 \<noteq> 0"
        using lkm_found_run pointers_fields(1) by metis
      with False show ?thesis by (simp add: run)
    qed
  qed
qed

lemma resolve_svc_handler_run:
  assumes "hunt_bounded fuel K" and "kallsyms_lookup_name_fn s \<noteq> 0"
    and "aarch64_insn_adrp_get_offset_fn s \<noteq> 0" and "depth \<le> 1024"
  shows "\<exists>r s'. resolve_svc_handler fuel K native csym depth s = Some (r, s') \<and> pointers s' = pointers s"
proof -
  let ?target = "k_lookup_at K (kallsyms_lookup_name_fn s) native"
  let ?sz = "get_ksym_size K ?target depth"
  obtain s1 where s1: "call_kallsyms_lookup_name K native s = Some (?target, s1)" "pointers s1 = pointers s"
    using call_lookup_Some [OF assms(2)] by metis
  have fn: "aarch64_insn_adrp_get_offset_fn (say (Target native ?target ?sz) s1) \<noteq> 0"
    using assms(3) pointers_fields(4) [OF s1(2)] by simp
  have "unat ?target + unat ?sz + 4 \<le> 2 ^ 64" "unat ?sz div 4 + 2 \<le> fuel"
    using assms(1,4) by (simp_all add: hunt_bounded_def Let_def)
  from hunt_hits [OF refl fn this(2,1), of K] obtain r s2 where
    "hunt_sct_adrp fuel K ?target ?sz (say (Target native ?target ?sz) s1) = Some (r, s2)" "pointers s2 = pointers s"
    using s1(2) by auto
  then show ?thesis using s1 by (cases "?target = 0") (simp_all add: resolve_svc_handler_def Let_def)
qed

lemma hunt_sys_call_table_run:
  assumes bounded: "hunt_bounded fuel K" and "kallsyms_lookup_name_fn s \<noteq> 0"
  shows "\<exists>s'. hunt_sys_call_table fuel K s = Some s'"
proof -
  let ?a = "k_lookup_at K (kallsyms_lookup_name_fn s) ''aarch64_insn_adrp_get_offset''"
  obtain s1 where s1: "call_kallsyms_lookup_name K ''aarch64_insn_adrp_get_offset'' s = Some (?a, s1)"
    "pointers s1 = pointers s"
    using call_lookup_Some [OF assms(2)] by metis
  define s2 where "s2 = s1\<lparr>aarch64_insn_adrp_get_offset_fn := ?a\<rparr>"
  have kn: "kallsyms_lookup_name_fn s2 \<noteq> 0"
    using assms(2) pointers_fields(1) [OF s1(2)] by (simp add: s2_def)
  have step: "\<exists>r s''. resolve_svc_handler fuel K native csym depth s' = Some (r, s'') \<and> pointers s'' = pointers s2"
    if "?a \<noteq> 0" "pointers s' = pointers s2" "depth \<le> 1024" for native csym depth s'
    using resolve_svc_handler_run [OF bounded, of s' depth native csym] that kn
      pointers_fields(1,4) [OF that(2)] by (simp add: s2_def)
  show ?thesis
  proof (cases "?a = 0")
    case True
    then show ?thesis using s1 by (simp add: hunt_sys_call_table_def)
  next
    case False
    obtain r1 t1 where "resolve_svc_handler fuel K ''do_el0_svc'' ''do_el0_svc_compat'' 256 s2 = Some (r1, t1)"
      and t1: "pointers t1 = pointers s2" using step [OF False refl, of 256] by force
    moreover obtain r2 t2 where "resolve_svc_handler fuel K ''el0_svc_handler'' ''el0_svc_compat_handler'' 256 t1 = Some (r2, t2)"
      and t2: "pointers t2 = pointers s2" using step [OF False t1, of 256] by force
    moreover obtain r3 t3 where "resolve_svc_handler fuel K ''el0_svc'' ''el0_svc_compat'' 1024 t2 = Some (r3, t3)"
      using step [OF False t2, of 1024] by force
    moreover obtain r4 t4 where "resolve_svc_handler fuel K ''el0_svc'' ''el0_svc_compat'' 64 s2 = Some (r4, t4)"
      using step [OF False refl, of 64] by force
    ultimately show ?thesis
      using s1 False by (simp add: hunt_sys_call_table_def flip: s2_def)
  qed
qed

text \<open>
  Loading the module always ends with -EAGAIN, and on no path does it
  call through a null function pointer; this holds for every kernel whose symbol printer does not
  present address 0 as the start of a symbol, with fuel for the ranges hunted through.
\<close>

definition loadable :: "nat \<Rightarrow> kernel_api \<Rightarrow> bool" where
  "loadable fuel K \<longleftrightarrow> hunt_bounded fuel K \<and> \<not> strstr (snd (k_sprint_symbol K 0)) ''+0x0''"

lemma lkm_template_init_result:
  assumes "loadable fuel K"
  shows "\<exists>s'. lkm_template_init fuel K s = Some (- 11, s')"
proof -
  have load: "hunt_bounded fuel K" "\<not> strstr (snd (k_sprint_symbol K 0)) ''+0x0''"
    using assms by (simp_all add: loadable_def)
  obtain r s1 where boot: "lkm_boostrap K (say HelloWorld s) = Some (r, s1)"
    and fn: "r = 0 \<longrightarrow> kallsyms_lookup_name_fn s1 \<noteq> 0"
    using lkm_boostrap_run [OF load(2)] by blast
  show ?thesis
  proof (cases "r = 0")
    case True
    with fn obtain s2 where "hunt_sys_call_table fuel K s1 = Some s2"
      using hunt_sys_call_table_run [OF load(1)] by blast
    with boot True show ?thesis by (simp add: lkm_template_init_def)
  next
    case False
    with boot show ?thesis by (simp add: lkm_template_init_def)
  qed
qed

lemma example_kernel_loadable: "loadable 300 (example_kernel 0x8000 200 ''kallsyms_lookup_name'')"
proof -
  have "hunt_bounded 300 (example_kernel 0x8000 200 ''kallsyms_lookup_name'')"
    by (auto simp: hunt_bounded_def example_kernel_def get_ksym_size_def word_le_nat_alt
        compat_kallsyms_lookup_size_offset_def Let_def)
  moreover have "\<not> strstr (''0x'' @ show_base 16 0) ''+0x0''"
    by (simp add: show_base_zero strstarts_def)
  then have "\<not> strstr (snd (k_sprint_symbol (example_kernel 0x8000 200 ''kallsyms_lookup_name'') 0)) ''+0x0''"
    by (simp add: example_kernel_def example_sprint_def Let_def)
  ultimately show ?thesis by (simp add: loadable_def)
qed

text \<open>
  C37: when both kprobe functions are exported and registering a probe on
  \<open>kallsyms_lookup_name\<close> yields an address, bootstrap succeeds without scanning: the probe is
  unregistered again, the address is installed, and the verifying lookup runs with whatever the
  storage of the local \<open>sym\<close> holds, because the jump to \<open>found\<close> passes over its initialiser.
\<close>

theorem lkm_boostrap_by_kprobe:
  assumes "k_symbol_get K ''register_kprobe'' = rfn" and "rfn \<noteq> 0"
    and "k_symbol_get K ''unregister_kprobe'' = ufn" and "ufn \<noteq> 0"
    and "k_register_kprobe_at K rfn ''kallsyms_lookup_name'' = (0, addr)" and "addr \<noteq> 0"
    and "verify = k_lookup_at K addr (k_sym_storage K)"
    and "compat_kallsyms_lookup_size_offset K verify 0 0 = (ret, sz, off)"
  shows "lkm_boostrap K s =
    Some (0, s\<lparr>kallsyms_lookup_name_fn := addr, register_kprobe_fn := rfn, unregister_kprobe_fn := ufn,
              klog := klog s @ [CallRegister rfn ''kallsyms_lookup_name'' 0, CallUnregister ufn,
                KpSuccess ''kallsyms_lookup_name'' addr, CallLookup addr (k_sym_storage K),
                Verify verify, SizeOffset ret sz off]\<rparr>)"
  using assms
  by (simp add: lkm_boostrap_def lkm_found_def kp_kallsyms_lookup_name_run call_kallsyms_lookup_name_def
      Let_def say_def)

lemma lkm_boostrap_by_kprobe_witness:
  "let K = (example_kernel 0x8000 200 ''kallsyms_lookup_name'')
         \<lparr>k_symbol_get := (\<lambda>name. 0x100), k_register_kprobe_at := (\<lambda>fn name. (0, 0x8000)),
          k_sym_storage := ''?''\<rparr>
   in map_option (klog \<circ> snd) (lkm_boostrap K fresh_lkm) =
     Some [CallRegister 0x100 ''kallsyms_lookup_name'' 0, CallUnregister 0x100,
       KpSuccess ''kallsyms_lookup_name'' 0x8000, CallLookup 0x8000 ''?'', Verify 0, SizeOffset 0 0 0]"
proof -
  let ?K = "(example_kernel 0x8000 200 ''kallsyms_lookup_name'')
         \<lparr>k_symbol_get := (\<lambda>name. 0x100), k_register_kprobe_at := (\<lambda>fn name. (0, 0x8000)),
          k_sym_storage := ''?''\<rparr>"
  have "compat_kallsyms_lookup_size_offset ?K 0 0 0 = (0, 0, 0)"
    by (simp add: compat_kallsyms_lookup_size_offset_def)
  then show ?thesis
    using lkm_boostrap_by_kprobe [of ?K "0x100" "0x100" "0x8000" 0 0 0 0 fresh_lkm]
    by (simp add: example_kernel_def fresh_lkm_def)
qed

text \<open>
  The replacement of \<open>copy_from_kernel_nofault\<close> for old kernels runs the copy under the kernel
  address limit with page faults disabled, restores both whatever the outcome, and reports
  -EFAULT exactly when some bytes were not copied.
\<close>

theorem compat_copy_restores_access:
  "compat_copy_from_kernel_nofault inatomic src sz acc =
     (let (missing, v) = inatomic \<lparr>kernel_ds = True, pagefault_disabled = Suc (pagefault_disabled acc)\<rparr> src sz
      in ((if missing = 0 then 0 else - 14, v), acc))"
  by (cases acc) (simp add: compat_copy_from_kernel_nofault_def Let_def split: prod.splits)

lemma ksym_size_of_symbol_witness:
  "let K = example_kernel 0x8000 200 ''do_el0_svc'' in get_ksym_size K 0x8010 64 = 200"
  using ksym_size_of_symbol [OF example_prints example_parses, where base = "0x8000" and off = 16 and sz = 200
      and name = "''do_el0_svc''" and retfail = 64]
  by simp

end
