(* ===== verification/ModuleLife.thy ===== *)
theory ModuleLife
  imports LkmTemplate
begin

text \<open>
  Loading and unloading: the hello module \<open>ksu_preinit_demo/lkm_src/lkm_hello.c\<close>, and both modules
  of the repository under a loader that calls their init and exit functions in any order it may.
\<close>

section \<open>The hello module\<close>

definition hello_line :: string where "hello_line = ''LKM: Hello World!'' @ [CHR 0x0A]"
definition goodbye_line :: string where "goodbye_line = ''LKM: Goodbye'' @ [CHR 0x0A]"

definition hello_init :: "string list \<Rightarrow> cint \<times> string list" where
  "hello_init log = (0, log @ [hello_line])"

definition hello_exit :: "string list \<Rightarrow> string list" where
  "hello_exit log = log @ [goodbye_line]"

section \<open>The loader\<close>

text \<open>
  A module is an init function, from the kernel at that time and its log to the C result with the static
  data and the log afterwards, or to nothing when it jumps through a null pointer; and an exit function. As the
  documentation of \<open>init_module(2)\<close> has it, a negative result discards the module with its data, and exit runs
  once when a resident module is removed. The kernel may be a different one at every load.
\<close>

datatype 's residence = Unloaded | Live 's | Oops

inductive module_step ::
  "('k \<Rightarrow> 'e list \<Rightarrow> (cint \<times> 's \<times> 'e list) option) \<Rightarrow> ('s \<Rightarrow> 'e list \<Rightarrow> 'e list) \<Rightarrow> ('k \<Rightarrow> bool) \<Rightarrow>
   'e list \<times> 's residence \<Rightarrow> 'e list \<times> 's residence \<Rightarrow> bool"
  for init exit kernels where
  load: "kernels K \<Longrightarrow> init K log = Some (r, s, log') \<Longrightarrow> \<not> r <s 0 \<Longrightarrow>
     module_step init exit kernels (log, Unloaded) (log', Live s)"
| refused: "kernels K \<Longrightarrow> init K log = Some (r, s, log') \<Longrightarrow> r <s 0 \<Longrightarrow>
     module_step init exit kernels (log, Unloaded) (log', Unloaded)"
| crash: "kernels K \<Longrightarrow> init K log = None \<Longrightarrow> module_step init exit kernels (log, Unloaded) (log, Oops)"
| unload: "module_step init exit kernels (log, Live s) (exit s log, Unloaded)"

inductive_cases module_stepE [elim]: "module_step init exit kernels (log, st) (log', st')"

text \<open>
  The contract of a module: what its log satisfies while it is not loaded (\<open>idle\<close>) and while it is
  (\<open>active\<close>).
\<close>

locale kernel_module =
  fixes init :: "'k \<Rightarrow> 'e list \<Rightarrow> (cint \<times> 's \<times> 'e list) option" and exit :: "'s \<Rightarrow> 'e list \<Rightarrow> 'e list"
    and kernels :: "'k \<Rightarrow> bool" and idle :: "'e list \<Rightarrow> bool" and active :: "'s \<Rightarrow> 'e list \<Rightarrow> bool"
  assumes init_returns: "kernels K \<Longrightarrow> idle log \<Longrightarrow>
      \<exists>r s log'. init K log = Some (r, s, log') \<and> (if r <s 0 then idle log' else active s log')"
    and exit_restores: "active s log \<Longrightarrow> idle (exit s log)"
begin

definition sound :: "'e list \<times> 's residence \<Rightarrow> bool" where
  "sound x = (case x of (log, Unloaded) \<Rightarrow> idle log | (log, Live s) \<Rightarrow> active s log | (log, Oops) \<Rightarrow> False)"

lemma module_step_sound:
  assumes "module_step init exit kernels x y" and "sound x"
  shows "sound y"
  using assms
proof cases
  case (load K log r s log')
  then show ?thesis using assms(2) init_returns [of K log] by (auto simp: sound_def)
next
  case (refused K log r s log')
  then show ?thesis using assms(2) init_returns [of K log] by (auto simp: sound_def)
next
  case (crash K log)
  then show ?thesis using assms(2) init_returns [of K log] by (auto simp: sound_def)
next
  case (unload log s)
  then show ?thesis using assms(2) exit_restores by (simp add: sound_def)
qed

lemma reachable_sound:
  assumes "(module_step init exit kernels)\<^sup>*\<^sup>* (log0, Unloaded) x" and "idle log0"
  shows "sound x"
  using assms(1)
proof induction
  case base
  then show ?case using assms(2) by (simp add: sound_def)
qed (rule module_step_sound)

end

section \<open>The life of the hello module\<close>

definition hello_module_init :: "unit \<Rightarrow> string list \<Rightarrow> (cint \<times> unit \<times> string list) option" where
  "hello_module_init K log = (let (r, log) = hello_init log in Some (r, (), log))"

definition hello_visits :: "nat \<Rightarrow> string list" where
  "hello_visits n = concat (replicate n [hello_line, goodbye_line])"

lemma hello_visits_Suc: "hello_visits (Suc n) = hello_visits n @ [hello_line, goodbye_line]"
  by (simp add: hello_visits_def replicate_append_same [symmetric])

interpretation hello: kernel_module hello_module_init "\<lambda>_. hello_exit" "\<lambda>_. True"
  "\<lambda>log. \<exists>n. log = hello_visits n" "\<lambda>_ log. \<exists>n. log = hello_visits n @ [hello_line]"
proof
  show "\<exists>r s log'. hello_module_init K log = Some (r, s, log') \<and>
      (if r <s 0 then \<exists>n. log' = hello_visits n else \<exists>n. log' = hello_visits n @ [hello_line])"
    if "\<exists>n. log = hello_visits n" for K log
    using that by (auto simp: hello_module_init_def hello_init_def)
  show "\<exists>n. hello_exit log = hello_visits n" if "\<exists>n. log = hello_visits n @ [hello_line]" for log
    using that by (auto simp: hello_exit_def hello_visits_Suc [symmetric] simp del: append_assoc) (auto simp: hello_visits_Suc [symmetric])
qed

text \<open>Every greeting of the hello module but that of a load still standing is answered by its goodbye.\<close>

theorem hello_module_life:
  assumes "(module_step hello_module_init (\<lambda>_. hello_exit) (\<lambda>_. True))\<^sup>*\<^sup>* ([], Unloaded) (log, st)"
  shows "\<exists>n. log = hello_visits n @ (if st = Unloaded then [] else [hello_line]) \<and> st \<noteq> Oops"
proof -
  have "hello.sound (log, st)"
    by (rule hello.reachable_sound [OF assms]) (simp add: exI [of _ 0] hello_visits_def)
  then show ?thesis by (cases st) (auto simp: hello.sound_def)
qed

section \<open>What the template logs\<close>

text \<open>
  A log of complete visits of the kprobe interface: every successful registration is at once
  followed by its removal, and nothing is removed or left behind otherwise. The module's exit function has not run.
\<close>

fun settled :: "event list \<Rightarrow> bool" where
  "settled [] \<longleftrightarrow> True"
| "settled (CallRegister fn name ret # es) \<longleftrightarrow>
     (if ret = 0 then (case es of CallUnregister _ # es' \<Rightarrow> settled es' | _ \<Rightarrow> False) else settled es)"
| "settled (CallUnregister _ # es) \<longleftrightarrow> False"
| "settled (Goodbye # es) \<longleftrightarrow> False"
| "settled (e # es) \<longleftrightarrow> settled es"

lemma settled_append: "settled xs \<Longrightarrow> settled ys \<Longrightarrow> settled (xs @ ys)"
  by (induction xs rule: settled.induct) (auto split: if_splits list.splits event.splits)

definition logs :: "lkm \<Rightarrow> lkm \<Rightarrow> bool" where
  "logs s s' \<longleftrightarrow> (\<exists>l. klog s' = klog s @ l \<and> settled l)"

lemma logs_same: "klog s' = klog s \<Longrightarrow> logs s s'"
  by (simp add: logs_def)

lemma logs_trans [trans]: "logs s s1 \<Longrightarrow> logs s1 s2 \<Longrightarrow> logs s s2"
  using settled_append by (fastforce simp: logs_def)

lemma logs_say: "settled [e] \<Longrightarrow> logs s t \<Longrightarrow> logs s (say e t)"
  using settled_append [of _ "[e]"] by (auto simp: logs_def say_def)

lemma logs_sayD: "logs (say e s) s' \<Longrightarrow> settled [e] \<Longrightarrow> logs s s'"
  using settled_append [of "[e]"] by (auto simp: logs_def say_def)

lemma logs_found_candidate: "logs s (snd (found_candidate K cur buf s))"
  by (auto simp: found_candidate_def Let_def intro: logs_same logs_say split: option.split prod.split)

lemma logs_scan_probe: "logs s (snd (scan_probe K cur s))"
  by (auto simp: scan_probe_def intro: logs_same logs_found_candidate split: prod.split)

lemma logs_start_r: "logs s (snd (start_r K anchor r s))"
proof (induction K anchor r s rule: start_r.induct)
  case (1 K anchor r s)
  show ?case
  proof (cases "max_iter \<le> r_iter r")
    case True
    then show ?thesis by (subst start_r.simps) (simp add: logs_say logs_same)
  next
    case False
    obtain x t where probe: "scan_probe K (r_curr r) s = (x, t)" by fastforce
    then have t: "logs s t" using logs_scan_probe [of s K "r_curr r"] by simp
    show ?thesis
    proof (cases x)
      case None
      then have "logs t (snd (start_r K anchor (scan_inc anchor r) t))" using 1 False probe by simp
      with t False probe None show ?thesis by (subst start_r.simps) (auto intro: logs_trans)
    next
      case (Some y)
      moreover have "logs s (say e t\<lparr>kallsyms_lookup_name_fn := a\<rparr>)" if "settled [e]" for e a
        using logs_say [OF that t] by (simp add: logs_def)
      ultimately show ?thesis using False probe by (subst start_r.simps) (auto split: prod.split)
    qed
  qed
qed

lemma logs_scan_pg: "logs s (snd (scan_pg K tries cur s))"
proof (induction K tries cur s rule: scan_pg.induct)
  case (1 K tries cur s)
  then show ?case
    by (subst scan_pg.simps) (auto simp: Let_def intro: logs_same logs_say split: option.split prod.split)
qed

lemma logs_call_lookup: "call_kallsyms_lookup_name K name s = Some (a, s') \<Longrightarrow> logs s s'"
  by (auto simp: call_kallsyms_lookup_name_def Let_def intro: logs_same logs_say split: if_splits)

lemma logs_call_adrp: "call_adrp_get_offset K insn s = Some (a, s') \<Longrightarrow> logs s s'"
  by (auto simp: call_adrp_get_offset_def Let_def intro: logs_same logs_say split: if_splits)

lemma logs_scan_insns: "scan_insns fuel K p e s = Some (r, s') \<Longrightarrow> logs s s'"
proof (induction fuel arbitrary: p s)
  case (Suc fuel)
  note next_insn = Suc.IH [of "p + 4"]
  show ?case
  proof (cases "e \<le> p")
    case True
    with Suc.prems show ?thesis by (simp add: logs_same)
  next
    case False
    show ?thesis
    proof (cases "copy_from_kernel_nofault K p 4")
      case None
      with False Suc.prems next_insn show ?thesis by simp
    next
      case (Some w)
      show ?thesis
      proof (cases "k_insn_is_adrp K (ucast w)")
        case False
        with \<open>\<not> e \<le> p\<close> Some Suc.prems next_insn show ?thesis by (simp add: Let_def)
      next
        case True
        then obtain off s1 where call: "call_adrp_get_offset K (ucast w) (say (AdrpAt p (ucast w)) s) = Some (off, s1)"
          using \<open>\<not> e \<le> p\<close> Some Suc.prems by (auto simp: Let_def bind_eq_Some_conv)
        obtain b s2 where pg: "scan_pg K 0 ((p AND NOT 0xFFF) + scast off) (say (Tgt ((p AND NOT 0xFFF) + scast off)) s1) = (b, s2)"
          by fastforce
        have rest: "if b then s' = s2 else scan_insns fuel K (p + 4) e s2 = Some (r, s')"
          using \<open>\<not> e \<le> p\<close> Some Suc.prems True call pg by (simp add: Let_def split: bool.splits)
        have "logs s (say (AdrpAt p (ucast w)) s)" by (simp add: logs_say logs_same)
        also have "logs (say (AdrpAt p (ucast w)) s) s1" by (rule logs_call_adrp [OF call])
        also have "logs s1 (say (Tgt ((p AND NOT 0xFFF) + scast off)) s1)" by (simp add: logs_say logs_same)
        also have "logs (say (Tgt ((p AND NOT 0xFFF) + scast off)) s1) s2"
          using logs_scan_pg [of _ K 0 "(p AND NOT 0xFFF) + scast off"] by (metis pg snd_conv)
        finally have "logs s s2" .
        with rest next_insn show ?thesis by (auto intro: logs_trans split: if_splits)
      qed
    qed
  qed
qed simp

lemma logs_resolve: "resolve_svc_handler fuel K n c d s = Some (r, s') \<Longrightarrow> logs s s'"
proof -
  assume run: "resolve_svc_handler fuel K n c d s = Some (r, s')"
  then obtain target t where call: "call_kallsyms_lookup_name K n s = Some (target, t)"
    by (auto simp: resolve_svc_handler_def bind_eq_Some_conv)
  with run have "s' = t \<or> (\<exists>e p q. settled [e] \<and> scan_insns fuel K p q (say e t) = Some (r, s'))"
    by (auto simp: resolve_svc_handler_def hunt_sct_adrp_def Let_def split: if_splits)
  with logs_call_lookup [OF call] show ?thesis
    by (auto dest!: logs_scan_insns intro: logs_trans logs_say)
qed

lemma logs_hunt: "hunt_sys_call_table fuel K s = Some s' \<Longrightarrow> logs s s'"
proof -
  assume run: "hunt_sys_call_table fuel K s = Some s'"
  then obtain a t where call: "call_kallsyms_lookup_name K ''aarch64_insn_adrp_get_offset'' s = Some (a, t)"
    by (auto simp: hunt_sys_call_table_def bind_eq_Some_conv)
  let ?t = "t\<lparr>aarch64_insn_adrp_get_offset_fn := a\<rparr>"
  have "logs s ?t" using logs_call_lookup [OF call] by (simp add: logs_def)
  moreover have "logs ?t s'"
    using run call
    by (auto simp: hunt_sys_call_table_def bind_eq_Some_conv Let_def split: if_splits
        intro: logs_same dest!: logs_resolve intro: logs_trans)
  ultimately show ?thesis by (rule logs_trans)
qed

lemma logs_lkm_found: "lkm_found K symb s = Some (r, s') \<Longrightarrow> logs s s'"
  by (auto simp: lkm_found_def Let_def bind_eq_Some_conv split_beta dest!: logs_call_lookup intro!: logs_say)

lemma logs_lkm_scan: "lkm_scan K s = Some (r, s') \<Longrightarrow> logs s s'"
proof -
  assume run: "lkm_scan K s = Some (r, s')"
  let ?addr = "k_sprint_symbol_addr K"
  let ?s = "say (ScanFrom ?addr) s"
  obtain ret t where boot: "start_r K ?addr (scan_start ?addr) ?s = (ret, t)" by fastforce
  have "logs s ?s" by (simp add: logs_say logs_same)
  also have "logs ?s t"
    using logs_start_r [of ?s K ?addr "scan_start ?addr"] boot by simp
  also have "logs t s'"
    using run boot logs_lkm_found by (auto simp: lkm_scan_def bootstrap_kallsyms_lookup_name_def Let_def logs_same split: if_splits)
  finally show ?thesis .
qed

lemma logs_kp_lookup:
  assumes "register_kprobe_fn s \<noteq> 0" and "unregister_kprobe_fn s \<noteq> 0"
    and "kp_kallsyms_lookup_name K name s = Some (a, s')"
  shows "logs s s'"
proof -
  obtain ret addr where reg: "k_register_kprobe_at K (register_kprobe_fn s) name = (ret, addr)" by fastforce
  show ?thesis
    using assms reg
    by (auto simp: kp_kallsyms_lookup_name_def register_kprobe_def unregister_kprobe_def Let_def say_def logs_def
        split: if_splits)
qed

lemma logs_lkm_boostrap: "lkm_boostrap K s = Some (r, s') \<Longrightarrow> logs s s'"
proof -
  assume run: "lkm_boostrap K s = Some (r, s')"
  let ?s = "s\<lparr>register_kprobe_fn := k_symbol_get K ''register_kprobe'', unregister_kprobe_fn := k_symbol_get K ''unregister_kprobe''\<rparr>"
  have start: "logs s ?s" by (simp add: logs_same)
  show ?thesis
  proof (cases "register_kprobe_fn ?s = 0 \<or> unregister_kprobe_fn ?s = 0")
    case True
    then have "lkm_scan K (say KprobeMissing ?s) = Some (r, s')"
      using run by (simp add: lkm_boostrap_def Let_def)
    with start show ?thesis by (auto dest!: logs_lkm_scan logs_sayD intro: logs_trans)
  next
    case False
    then obtain a t where kp: "kp_kallsyms_lookup_name K ''kallsyms_lookup_name'' ?s = Some (a, t)"
      and rest: "(if a \<noteq> 0 then lkm_found K (k_sym_storage K) (t\<lparr>kallsyms_lookup_name_fn := a\<rparr>)
                  else lkm_scan K (t\<lparr>kallsyms_lookup_name_fn := a\<rparr>)) = Some (r, s')"
      using run by (auto simp: lkm_boostrap_def Let_def bind_eq_Some_conv)
    note start
    also have "logs ?s t" using False kp by (intro logs_kp_lookup) auto
    also have "logs t (t\<lparr>kallsyms_lookup_name_fn := a\<rparr>)" by (simp add: logs_same)
    also have "logs (t\<lparr>kallsyms_lookup_name_fn := a\<rparr>) s'"
      using rest logs_lkm_found logs_lkm_scan by (auto split: if_splits)
    finally show ?thesis .
  qed
qed

lemma logs_after_greeting: "lkm_template_init fuel K s = Some (r, s') \<Longrightarrow> logs (say HelloWorld s) s'"
  by (auto simp: lkm_template_init_def bind_eq_Some_conv split: if_splits
      dest!: logs_lkm_boostrap logs_hunt intro: logs_trans)

lemma logs_init: "lkm_template_init fuel K s = Some (r, s') \<Longrightarrow> logs s s'"
  by (drule logs_after_greeting, erule logs_sayD) simp

section \<open>The life of the template\<close>

text \<open>Every load starts with the static pointers null again; the log of the kernel goes on.\<close>

definition template_load :: "nat \<Rightarrow> kernel_api \<Rightarrow> event list \<Rightarrow> (cint \<times> lkm \<times> event list) option" where
  "template_load fuel K log =
     map_option (\<lambda>(r, s). (r, s, klog s)) (lkm_template_init fuel K (fresh_lkm\<lparr>klog := log\<rparr>))"

definition template_unload :: "lkm \<Rightarrow> event list \<Rightarrow> event list" where
  "template_unload s log = klog (lkm_template_exit (s\<lparr>klog := log\<rparr>))"

interpretation template: kernel_module "template_load fuel" template_unload "loadable fuel" settled "\<lambda>_ _. False" for fuel
proof
  show "\<exists>r s log'. template_load fuel K log = Some (r, s, log') \<and> (if r <s 0 then settled log' else False)"
    if ok: "loadable fuel K" "settled log" for K log
  proof -
    obtain s where s: "lkm_template_init fuel K (fresh_lkm\<lparr>klog := log\<rparr>) = Some (- 11, s)"
      using lkm_template_init_result [OF ok(1)] by blast
    then have "settled (klog s)"
      using logs_init [OF s] ok(2) settled_append by (auto simp: logs_def)
    with s show ?thesis by (simp add: template_load_def word_sless_alt)
  qed
qed simp

text \<open>
  C7: however often the template is loaded, on whatever sequence of kernels its symbol hunt is bounded for, it
  never crashes through a null pointer and never stays resident, and whenever it is gone all its
  kprobes are: each successful registration was at once followed by its removal. Its exit function never runs.
\<close>

theorem template_never_resident:
  assumes "(module_step (template_load fuel) template_unload (loadable fuel))\<^sup>*\<^sup>* ([], Unloaded) (log, st)"
  shows "st = Unloaded \<and> settled log"
  using template.reachable_sound [OF assms]
  by (cases st) (simp_all add: template.sound_def)

lemma template_never_resident_witness:
  "\<exists>log. (module_step (template_load 300) template_unload (loadable 300))\<^sup>*\<^sup>* ([], Unloaded) (log, Unloaded) \<and>
     log \<noteq> [] \<and> settled log"
proof -
  let ?K = "example_kernel 0x8000 200 ''kallsyms_lookup_name''"
  obtain s where s: "lkm_template_init 300 ?K (fresh_lkm\<lparr>klog := []\<rparr>) = Some (- 11, s)"
    using lkm_template_init_result [OF example_kernel_loadable] by blast
  then have "template_load 300 ?K [] = Some (- 11, s, klog s)" by (simp add: template_load_def)
  then have reach: "(module_step (template_load 300) template_unload (loadable 300))\<^sup>*\<^sup>* ([], Unloaded) (klog s, Unloaded)"
    using example_kernel_loadable by (intro r_into_rtranclp module_step.refused) (auto simp: word_sless_alt)
  moreover have "klog s \<noteq> []"
    using logs_after_greeting [OF s] by (auto simp: logs_def say_def)
  ultimately show ?thesis using template_never_resident [OF reach] by blast
qed

end
