(* ===== verification/SmallRt.thy ===== *)
theory SmallRt
  imports Prelude
begin

text \<open>
  The freestanding runtime of the \<open>small_rt.h\<close> headers: the inline-assembly system call of
  each architecture, the errno gate and the argument-counting macro of the newest header, the
  naked entry point and \<open>prep_main\<close>, which finds \<open>argc\<close>, \<open>argv\<close> and \<open>envp\<close> on the
  initial stack. A processor is its named registers and a memory of machine words; the kernel is
  a function from the processor state at the trap to the returned word.
\<close>

section \<open>Processor state\<close>

datatype arch = AArch64 | ARM | X86_64 | I386

record 'w cpu =
  gpr :: "string \<Rightarrow> 'w"
  mem :: "'w \<Rightarrow> 'w"

type_synonym 'w trap = "'w cpu \<Rightarrow> 'w"

definition set_reg :: "string \<Rightarrow> 'w \<Rightarrow> 'w cpu \<Rightarrow> 'w cpu" where
  "set_reg r v s = s\<lparr>gpr := (gpr s)(r := v)\<rparr>"

definition load_regs :: "(string \<times> 'w) list \<Rightarrow> 'w cpu \<Rightarrow> 'w cpu" where
  "load_regs rvs s = fold (\<lambda>(r, v). set_reg r v) rvs s"

lemma gpr_set_reg [simp]: "gpr (set_reg r v s) q = (if q = r then v else gpr s q)"
  by (simp add: set_reg_def)

lemma mem_set_reg [simp]: "mem (set_reg r v s) = mem s"
  by (simp add: set_reg_def)

section \<open>The raw system calls\<close>

text \<open>
  A raw call takes the number and six arguments as a list of seven words and returns the result
  with the processor state after it.
\<close>

definition syscall_aarch64 :: "'w trap \<Rightarrow> 'w cpu \<Rightarrow> 'w list \<Rightarrow> 'w \<times> 'w cpu" where
  "syscall_aarch64 svc s xs =
     (let s = load_regs [(''x8'', xs ! 0), (''x0'', xs ! 1), (''x1'', xs ! 2), (''x2'', xs ! 3),
                         (''x3'', xs ! 4), (''x4'', xs ! 5), (''x5'', xs ! 6)] s;
          s = set_reg ''x0'' (svc s) s
      in (gpr s ''x0'', s))"

definition syscall_arm :: "'w trap \<Rightarrow> 'w cpu \<Rightarrow> 'w list \<Rightarrow> 'w \<times> 'w cpu" where
  "syscall_arm svc s xs =
     (let s = load_regs [(''r7'', xs ! 0), (''r0'', xs ! 1), (''r1'', xs ! 2), (''r2'', xs ! 3),
                         (''r3'', xs ! 4), (''r4'', xs ! 5), (''r5'', xs ! 6)] s;
          s = set_reg ''r0'' (svc s) s
      in (gpr s ''r0'', s))"

text \<open>
  The x86-64 block leaves the registers of its last three inputs to the compiler; they are the
  parameters \<open>rd\<close>, \<open>re\<close> and \<open>rf\<close>. The three moves run in program order.
\<close>

definition syscall_x86_64 ::
  "string \<Rightarrow> string \<Rightarrow> string \<Rightarrow> 'w trap \<Rightarrow> 'w cpu \<Rightarrow> 'w list \<Rightarrow> 'w \<times> 'w cpu" where
  "syscall_x86_64 rd re rf svc s xs =
     (let s = load_regs [(''rax'', xs ! 0), (''rdi'', xs ! 1), (''rsi'', xs ! 2), (''rdx'', xs ! 3),
                         (rd, xs ! 4), (re, xs ! 5), (rf, xs ! 6)] s;
          s = set_reg ''r10'' (gpr s rd) s;
          s = set_reg ''r8'' (gpr s re) s;
          s = set_reg ''r9'' (gpr s rf) s;
          s = set_reg ''rax'' (svc s) s
      in (gpr s ''rax'', s))"

text \<open>The stack operations of the i386 block, on four-byte slots below \<open>esp\<close>.\<close>

definition pushl :: "'a::len word \<Rightarrow> 'a word cpu \<Rightarrow> 'a word cpu" where
  "pushl v s =
     (let sp = gpr s ''esp'' - 4
      in set_reg ''esp'' sp (s\<lparr>mem := (mem s)(sp := v)\<rparr>))"

definition popl :: "string \<Rightarrow> 'a::len word cpu \<Rightarrow> 'a word cpu" where
  "popl r s =
     (let v = mem s (gpr s ''esp'')
      in set_reg r v (set_reg ''esp'' (gpr s ''esp'' + 4) s))"

text \<open>The i386 block up to \<open>int $0x80\<close>, and the whole block.\<close>

definition i386_enter :: "'a::len word list \<Rightarrow> 'a word cpu \<Rightarrow> 'a word cpu" where
  "i386_enter xs s =
     (let arg6 = xs ! 6;
          s = load_regs [(''eax'', xs ! 0), (''ebx'', xs ! 1), (''ecx'', xs ! 2), (''edx'', xs ! 3),
                         (''esi'', xs ! 4), (''edi'', xs ! 5)] s;
          s = pushl arg6 s;
          s = pushl (gpr s ''ebp'') s
      in set_reg ''ebp'' (mem s (gpr s ''esp'' + 4)) s)"

definition syscall_i386 ::
  "'a::len word trap \<Rightarrow> 'a word cpu \<Rightarrow> 'a word list \<Rightarrow> 'a word \<times> 'a word cpu" where
  "syscall_i386 int80 s xs =
     (let s = i386_enter xs s;
          s = set_reg ''eax'' (int80 s) s;
          s = popl ''ebp'' s;
          s = set_reg ''esp'' (gpr s ''esp'' + 4) s
      in (gpr s ''eax'', s))"

text \<open>Where the kernel of each architecture looks for the number and the arguments.\<close>

definition kernel_abi :: "arch \<Rightarrow> 'w cpu \<Rightarrow> 'w list" where
  "kernel_abi a s = map (gpr s)
     (case a of
        AArch64 \<Rightarrow> [''x8'', ''x0'', ''x1'', ''x2'', ''x3'', ''x4'', ''x5'']
      | ARM \<Rightarrow> [''r7'', ''r0'', ''r1'', ''r2'', ''r3'', ''r4'', ''r5'']
      | X86_64 \<Rightarrow> [''rax'', ''rdi'', ''rsi'', ''rdx'', ''r10'', ''r8'', ''r9'']
      | I386 \<Rightarrow> [''eax'', ''ebx'', ''ecx'', ''edx'', ''esi'', ''edi'', ''ebp''])"

section \<open>The gate and the counting macro\<close>

text \<open>\<open>__syscall_gate\<close> with \<open>small_rt_use_errno\<close>: the pair is (result, errno).\<close>

definition syscall_gate_errno :: "clong \<Rightarrow> cint \<Rightarrow> clong \<times> cint" where
  "syscall_gate_errno ret errno =
     (if ret <s 0 \<and> - 4095 \<le>s ret then (- 1, ucast (- ret)) else (ret, errno))"

text \<open>
  \<open>__syscall_count_args\<close> appends 6, 5, 4, 3, 2, 1, 0 to the arguments and takes the eighth
  token; with more than seven arguments that token is an argument and no macro has its name.
\<close>

datatype 'w token = Arg 'w | Count nat

definition syscall_count_args :: "'w list \<Rightarrow> 'w token" where
  "syscall_count_args args = (map Arg args @ map Count [6, 5, 4, 3, 2, 1, 0]) ! 7"

fun syscall_fixed :: "nat \<Rightarrow> 'w::zero list \<Rightarrow> 'w list option" where
  "syscall_fixed k [n] = (if k = 0 then Some [n, 0, 0, 0, 0, 0, 0] else None)"
| "syscall_fixed k [n, a] = (if k = 1 then Some [n, a, 0, 0, 0, 0, 0] else None)"
| "syscall_fixed k [n, a, b] = (if k = 2 then Some [n, a, b, 0, 0, 0, 0] else None)"
| "syscall_fixed k [n, a, b, c] = (if k = 3 then Some [n, a, b, c, 0, 0, 0] else None)"
| "syscall_fixed k [n, a, b, c, d] = (if k = 4 then Some [n, a, b, c, d, 0, 0] else None)"
| "syscall_fixed k [n, a, b, c, d, e] = (if k = 5 then Some [n, a, b, c, d, e, 0] else None)"
| "syscall_fixed k [n, a, b, c, d, e, f] = (if k = 6 then Some [n, a, b, c, d, e, f] else None)"
| "syscall_fixed k _ = None"

definition syscall_macro :: "'w::zero list \<Rightarrow> 'w list option" where
  "syscall_macro args =
     (case syscall_count_args args of
        Count k \<Rightarrow> syscall_fixed k args
      | Arg _ \<Rightarrow> None)"

section \<open>Entry points\<close>

text \<open>
  \<open>__start\<close> hands the stack pointer to \<open>prep_main\<close>: in the first argument register, or on
  i386 in the stack slot above the return address.
\<close>

definition start_entry :: "arch \<Rightarrow> 'a::len word \<Rightarrow> 'a word cpu \<Rightarrow> 'a word cpu" where
  "start_entry a ret_addr s =
     (case a of
        AArch64 \<Rightarrow> set_reg ''x0'' (gpr s ''sp'') s
      | ARM \<Rightarrow> set_reg ''r0'' (gpr s ''sp'') s
      | X86_64 \<Rightarrow> set_reg ''rdi'' (gpr s ''rsp'') s
      | I386 \<Rightarrow>
          (let s = set_reg ''eax'' (gpr s ''esp'') s;
               s = pushl (gpr s ''eax'') s
           in pushl ret_addr s))"

definition first_parameter :: "arch \<Rightarrow> 'a::len word cpu \<Rightarrow> 'a word" where
  "first_parameter a s =
     (case a of
        AArch64 \<Rightarrow> gpr s ''x0''
      | ARM \<Rightarrow> gpr s ''r0''
      | X86_64 \<Rightarrow> gpr s ''rdi''
      | I386 \<Rightarrow> mem s (gpr s ''esp'' + 4))"

definition stack_pointer :: "arch \<Rightarrow> 'w cpu \<Rightarrow> 'w" where
  "stack_pointer a s =
     gpr s (case a of AArch64 \<Rightarrow> ''sp'' | ARM \<Rightarrow> ''sp'' | X86_64 \<Rightarrow> ''rsp'' | I386 \<Rightarrow> ''esp'')"

text \<open>
  \<open>prep_main\<close> computes three values from \<open>sp\<close>; \<open>wsz\<close> is \<open>sizeof(long)\<close>, also the size
  of a pointer, by which C scales the pointer arithmetic.
\<close>

record 'w process_args =
  pa_argc :: 'w
  pa_argv :: 'w
  pa_envp :: 'w

definition prep_main :: "'a::len word \<Rightarrow> ('a word \<Rightarrow> 'a word) \<Rightarrow> 'a word \<Rightarrow> 'a word process_args" where
  "prep_main wsz m sp =
     (let argc = m sp;
          argv = sp + 1 * wsz;
          envp = argv + argc * wsz + 1 * wsz
      in \<lparr>pa_argc = argc, pa_argv = argv, pa_envp = envp\<rparr>)"


section \<open>The headers\<close>

text \<open>
  Every copy of the runtime selects its code by the same \<open>#if\<close> chain over a list of
  architectures; on another architecture the function does not exist. \<open>alloc\<close> are the three
  registers the compiler picks in the x86-64 block.
\<close>

type_synonym alloc = "string \<times> string \<times> string"

type_synonym 'w raw_call = "'w trap \<Rightarrow> 'w cpu \<Rightarrow> 'w list \<Rightarrow> 'w \<times> 'w cpu"

definition raw_call :: "alloc \<Rightarrow> arch \<Rightarrow> 'a::len word raw_call" where
  "raw_call alloc a =
     (case a of
        AArch64 \<Rightarrow> syscall_aarch64
      | ARM \<Rightarrow> syscall_arm
      | X86_64 \<Rightarrow> (case alloc of (rd, re, rf) \<Rightarrow> syscall_x86_64 rd re rf)
      | I386 \<Rightarrow> syscall_i386)"

definition compiled_for :: "arch list \<Rightarrow> (arch \<Rightarrow> 'f) \<Rightarrow> arch \<Rightarrow> 'f option" where
  "compiled_for archs f a = (if a \<in> set archs then Some (f a) else None)"

definition hello_world_syscall :: "alloc \<Rightarrow> arch \<Rightarrow> 'a::len word raw_call option" where
  "hello_world_syscall alloc = compiled_for [AArch64, ARM] (raw_call alloc)"

definition tinyfs_su_syscall :: "alloc \<Rightarrow> arch \<Rightarrow> 'a::len word raw_call option" where
  "tinyfs_su_syscall alloc = compiled_for [AArch64, ARM] (raw_call alloc)"

definition small_start_syscall :: "alloc \<Rightarrow> arch \<Rightarrow> 'a::len word raw_call option" where
  "small_start_syscall alloc = compiled_for [AArch64, ARM, X86_64] (raw_call alloc)"

definition bench_syscall :: "alloc \<Rightarrow> arch \<Rightarrow> 'a::len word raw_call option" where
  "bench_syscall alloc = compiled_for [AArch64, ARM, X86_64] (raw_call alloc)"

definition backports_syscall :: "alloc \<Rightarrow> arch \<Rightarrow> 'a::len word raw_call option" where
  "backports_syscall alloc = compiled_for [AArch64, ARM, X86_64] (raw_call alloc)"

definition umount_list_syscall :: "alloc \<Rightarrow> arch \<Rightarrow> 'a::len word raw_call option" where
  "umount_list_syscall alloc = compiled_for [AArch64, ARM, X86_64] (raw_call alloc)"

definition first_start_syscall :: "alloc \<Rightarrow> arch \<Rightarrow> 'a::len word raw_call option" where
  "first_start_syscall alloc = compiled_for [AArch64, ARM, X86_64] (raw_call alloc)"

definition small_su_syscall :: "alloc \<Rightarrow> arch \<Rightarrow> 'a::len word raw_call option" where
  "small_su_syscall alloc = compiled_for [AArch64, ARM, X86_64] (raw_call alloc)"

definition preinit_syscall_raw :: "alloc \<Rightarrow> arch \<Rightarrow> 'a::len word raw_call option" where
  "preinit_syscall_raw alloc = compiled_for [AArch64, ARM, X86_64, I386] (raw_call alloc)"

definition hello_world_start :: "arch \<Rightarrow> ('a::len word \<Rightarrow> 'a word cpu \<Rightarrow> 'a word cpu) option" where
  "hello_world_start = compiled_for [AArch64, ARM] start_entry"

definition tinyfs_su_start :: "arch \<Rightarrow> ('a::len word \<Rightarrow> 'a word cpu \<Rightarrow> 'a word cpu) option" where
  "tinyfs_su_start = compiled_for [AArch64, ARM] start_entry"

definition small_start_start :: "arch \<Rightarrow> ('a::len word \<Rightarrow> 'a word cpu \<Rightarrow> 'a word cpu) option" where
  "small_start_start = compiled_for [AArch64, ARM, X86_64] start_entry"

definition bench_start :: "arch \<Rightarrow> ('a::len word \<Rightarrow> 'a word cpu \<Rightarrow> 'a word cpu) option" where
  "bench_start = compiled_for [AArch64, ARM, X86_64] start_entry"

definition backports_start :: "arch \<Rightarrow> ('a::len word \<Rightarrow> 'a word cpu \<Rightarrow> 'a word cpu) option" where
  "backports_start = compiled_for [AArch64, ARM, X86_64] start_entry"

definition umount_list_start :: "arch \<Rightarrow> ('a::len word \<Rightarrow> 'a word cpu \<Rightarrow> 'a word cpu) option" where
  "umount_list_start = compiled_for [AArch64, ARM, X86_64] start_entry"

definition first_start_start :: "arch \<Rightarrow> ('a::len word \<Rightarrow> 'a word cpu \<Rightarrow> 'a word cpu) option" where
  "first_start_start = compiled_for [AArch64, ARM, X86_64] start_entry"

definition small_su_start :: "arch \<Rightarrow> ('a::len word \<Rightarrow> 'a word cpu \<Rightarrow> 'a word cpu) option" where
  "small_su_start = compiled_for [AArch64, ARM, X86_64] start_entry"

definition preinit_start :: "arch \<Rightarrow> ('a::len word \<Rightarrow> 'a word cpu \<Rightarrow> 'a word cpu) option" where
  "preinit_start = compiled_for [AArch64, ARM, X86_64, I386] start_entry"

section \<open>The system call interface\<close>

text \<open>
  What a caller may rely on, whatever the architecture: a kernel that looks only at its ABI
  registers sees exactly the seven words and its answer is the result. The counting macro and
  the errno gate are clients of this law.
\<close>

locale syscall_abi =
  fixes raw :: "'w::zero raw_call" and abi :: "'w cpu \<Rightarrow> 'w list"
  assumes raw_result: "length xs = 7 \<Longrightarrow> fst (raw (K \<circ> abi) s xs) = K xs"
begin

lemma macro_result:
  assumes "syscall_macro args = Some xs"
  shows "fst (raw (K \<circ> abi) s xs) = K xs"
proof (rule raw_result)
  have len: "length xs = 7" if "syscall_fixed k args = Some xs" for k
    using that by (cases "(k, args)" rule: syscall_fixed.cases) (auto split: if_splits)
  show "length xs = 7"
    using assms by (auto simp: syscall_macro_def intro: len split: token.splits)
qed

end

lemma seven_words:
  assumes "length xs = 7"
  obtains n a b c d e f where "xs = [n, a, b, c, d, e, f]"
  using assms by (auto simp: length_Suc_conv eval_nat_numeral)

lemma gpr_pushl [simp]:
  "gpr (pushl v s) q = (if q = ''esp'' then gpr s ''esp'' - 4 else gpr s q)"
  by (simp add: pushl_def Let_def)

lemma mem_pushl [simp]: "mem (pushl v s) = (mem s)(gpr s ''esp'' - 4 := v)"
  by (simp add: pushl_def Let_def)

lemma gpr_popl [simp]:
  "r \<noteq> ''esp'' \<Longrightarrow> gpr (popl r s) q =
     (if q = r then mem s (gpr s ''esp'') else if q = ''esp'' then gpr s ''esp'' + 4 else gpr s q)"
  by (simp add: popl_def Let_def)

lemma mem_popl [simp]: "mem (popl r s) = mem s"
  by (simp add: popl_def Let_def)

lemma gpr_i386_enter:
  assumes "(4 :: 'a::len word) \<noteq> 0"
  shows "gpr (i386_enter xs s) =
     (gpr s)(''eax'' := xs ! 0, ''ebx'' := xs ! 1, ''ecx'' := xs ! 2, ''edx'' := xs ! 3,
             ''esi'' := xs ! 4, ''edi'' := xs ! 5, ''ebp'' := xs ! 6,
             ''esp'' := gpr s ''esp'' - (8 :: 'a word))"
  using assms by (intro ext) (simp add: i386_enter_def load_regs_def Let_def)

lemma mem_i386_enter:
  "mem (i386_enter xs s) =
     (mem s)(gpr s ''esp'' - 4 := xs ! 6, gpr s ''esp'' - (8 :: 'a::len word) := gpr s ''ebp'')"
  by (simp add: i386_enter_def load_regs_def Let_def)

lemma i386_abi_at_trap:
  assumes "(4 :: 'a::len word) \<noteq> 0" and "length xs = 7"
  shows "kernel_abi I386 (i386_enter xs s) = (xs :: 'a word list)"
  using assms(2) by (elim seven_words) (simp add: kernel_abi_def gpr_i386_enter [OF assms(1)])

lemma i386_result: "fst (syscall_i386 int80 s xs) = int80 (i386_enter xs s)"
  by (simp add: syscall_i386_def Let_def)

definition x86_64_allocatable :: "alloc \<Rightarrow> bool" where
  "x86_64_allocatable al \<longleftrightarrow>
     (case al of (rd, re, rf) \<Rightarrow>
        distinct [rd, re, rf] \<and>
        {rd, re, rf} \<subseteq> {''rbx'', ''rbp'', ''r8'', ''r9'', ''r10'', ''r12'', ''r13'', ''r14'', ''r15''})"

definition x86_64_safe :: "alloc \<Rightarrow> bool" where
  "x86_64_safe al \<longleftrightarrow>
     x86_64_allocatable al \<and>
     (case al of (rd, re, rf) \<Rightarrow> re \<noteq> ''r10'' \<and> rf \<noteq> ''r10'' \<and> rf \<noteq> ''r8'')"

lemma x86_64_args:
  assumes "x86_64_allocatable (rd, re, rf)"
  shows "fst (syscall_x86_64 rd re rf (K \<circ> kernel_abi X86_64) s [n, a, b, c, d, e, f]) =
    K [n, a, b, c, d, if re = ''r10'' then d else e,
       if rf = ''r8'' then (if re = ''r10'' then d else e) else if rf = ''r10'' then d else f]"
proof -
  define s1 where "s1 = load_regs [(''rax'', n), (''rdi'', a), (''rsi'', b), (''rdx'', c),
                                   (rd, d), (re, e), (rf, f)] s"
  define s2 where "s2 = set_reg ''r10'' (gpr s1 rd) s1"
  define s3 where "s3 = set_reg ''r8'' (gpr s2 re) s2"
  define s4 where "s4 = set_reg ''r9'' (gpr s3 rf) s3"
  have ne: "rd \<noteq> re" "re \<noteq> rf" "rd \<noteq> rf" using assms by (auto simp: x86_64_allocatable_def)
  have fixed: "q \<notin> {rd, re, rf}" if "q \<in> {''rax'', ''rdi'', ''rsi'', ''rdx''}" for q
    using that assms by (auto simp: x86_64_allocatable_def)
  have s1: "gpr s1 rd = d" "gpr s1 re = e" "gpr s1 rf = f"
    "gpr s1 ''rax'' = n" "gpr s1 ''rdi'' = a" "gpr s1 ''rsi'' = b" "gpr s1 ''rdx'' = c"
    using ne fixed by (auto simp: s1_def load_regs_def)
  have s4: "gpr s4 q = gpr s1 q" if "q \<in> {''rax'', ''rdi'', ''rsi'', ''rdx''}" for q
    using that by (auto simp: s4_def s3_def s2_def)
  have "gpr s4 ''r10'' = d" by (simp add: s4_def s3_def s2_def s1)
  moreover have r8: "gpr s3 ''r8'' = (if re = ''r10'' then d else e)" by (simp add: s3_def s2_def s1)
  moreover have "gpr s4 ''r8'' = gpr s3 ''r8''" by (simp add: s4_def)
  moreover have "gpr s3 rf = (if rf = ''r8'' then gpr s3 ''r8'' else if rf = ''r10'' then d else f)"
    by (simp add: s3_def s2_def s1)
  moreover have "gpr s4 ''r9'' = gpr s3 rf" by (simp add: s4_def)
  ultimately have "kernel_abi X86_64 s4 =
      [n, a, b, c, d, if re = ''r10'' then d else e,
       if rf = ''r8'' then (if re = ''r10'' then d else e) else if rf = ''r10'' then d else f]"
    by (simp add: kernel_abi_def s4 s1)
  moreover have "fst (syscall_x86_64 rd re rf (K \<circ> kernel_abi X86_64) s [n, a, b, c, d, e, f])
      = K (kernel_abi X86_64 s4)"
    by (simp add: syscall_x86_64_def Let_def s4_def s3_def s2_def s1_def)
  ultimately show ?thesis by simp
qed

interpretation aarch64: syscall_abi syscall_aarch64 "kernel_abi AArch64"
  by unfold_locales
     (auto elim!: seven_words simp: syscall_aarch64_def load_regs_def kernel_abi_def Let_def)

interpretation arm: syscall_abi syscall_arm "kernel_abi ARM"
  by unfold_locales
     (auto elim!: seven_words simp: syscall_arm_def load_regs_def kernel_abi_def Let_def)

interpretation i386: syscall_abi "syscall_i386 :: 32 word raw_call" "kernel_abi I386"
  by unfold_locales (simp add: i386_result i386_abi_at_trap)

interpretation x86_64: syscall_abi "syscall_x86_64 ''r12'' ''r8'' ''r9''" "kernel_abi X86_64"
  by unfold_locales (auto elim!: seven_words simp: x86_64_args x86_64_allocatable_def)


section \<open>Properties of the calls\<close>

lemma compiled_for_Some: "compiled_for archs f a = Some g \<longleftrightarrow> a \<in> set archs \<and> g = f a"
  by (auto simp: compiled_for_def)

lemma raw_call_passes:
  fixes xs :: "'a::len word list"
  assumes "a = X86_64 \<Longrightarrow> x86_64_safe al" and len: "length xs = 7" and "(4 :: 'a word) \<noteq> 0"
  shows "fst (raw_call al a (K \<circ> kernel_abi a) s xs) = K xs"
proof (cases a)
  case X86_64
  obtain rd re rf where al: "al = (rd, re, rf)" by (cases al)
  obtain n b c d e f g where "xs = [n, b, c, d, e, f, g]" using len by (rule seven_words)
  then show ?thesis
    using assms(1) [OF X86_64] x86_64_args [of rd re rf K s n b c d e f g]
    by (simp add: X86_64 al raw_call_def x86_64_safe_def)
qed (simp_all add: raw_call_def aarch64.raw_result [OF len] arm.raw_result [OF len]
      i386_result i386_abi_at_trap [OF assms(3) len])

text \<open>
  C12: in every copy of the runtime and on every architecture it is compiled for, the kernel finds
  the system call number and all six arguments in its ABI registers, and the C function returns
  the kernel's answer. On arm, aarch64 and i386 this holds without a condition; on x86-64 it holds
  for the register choices of the compiler that are safe for the moves; \<open>x86_64_moves_iff\<close> shows that all others fail.
\<close>

theorem syscall_passes_arguments:
  fixes xs :: "'a::len word list"
  assumes "call \<in> {hello_world_syscall al, tinyfs_su_syscall al, small_start_syscall al,
      bench_syscall al, backports_syscall al, umount_list_syscall al, first_start_syscall al,
      small_su_syscall al, preinit_syscall_raw al}"
    and "call a = Some raw" and "a = X86_64 \<Longrightarrow> x86_64_safe al" and "length xs = 7" and "(4 :: 'a word) \<noteq> 0"
  shows "fst (raw (K \<circ> kernel_abi a) s xs) = K xs"
proof -
  have "raw = raw_call al a"
    using assms(1,2)
    by (auto simp: compiled_for_Some hello_world_syscall_def tinyfs_su_syscall_def
        small_start_syscall_def bench_syscall_def backports_syscall_def umount_list_syscall_def
        first_start_syscall_def small_su_syscall_def preinit_syscall_raw_def)
  then show ?thesis using raw_call_passes [OF assms(3-5)] by simp
qed

lemma syscall_passes_arguments_witness:
  "fst (syscall_i386 (sum_list \<circ> kernel_abi I386) \<lparr>gpr = \<lambda>_. 0, mem = \<lambda>_. 0\<rparr>
      [1, 2, 3, 4, 5, 6, 7 :: 32 word]) = 28"
proof -
  have "preinit_syscall_raw (''r8'', ''r9'', ''r10'') I386 = Some (syscall_i386 :: 32 word raw_call)"
    by (simp add: preinit_syscall_raw_def compiled_for_def raw_call_def)
  then show ?thesis
    using syscall_passes_arguments [of "preinit_syscall_raw (''r8'', ''r9'', ''r10'')"
        "(''r8'', ''r9'', ''r10'')" I386 syscall_i386 "[1, 2, 3, 4, 5, 6, 7 :: 32 word]" sum_list
        "\<lparr>gpr = \<lambda>_. 0, mem = \<lambda>_. 0\<rparr>"]
    by simp
qed

text \<open>
  C38: the x86-64 block moves its last three inputs one after the other into r10, r8 and r9
  without declaring those registers written early; it passes all arguments exactly when the
  compiler keeps the fifth argument out of r10 and the sixth out of r10 and r8.
\<close>

theorem x86_64_moves_iff:
  fixes s :: "64 word cpu"
  assumes "x86_64_allocatable (rd, re, rf)"
  shows "(\<forall>K xs. length xs = 7 \<longrightarrow>
            fst (syscall_x86_64 rd re rf (K \<circ> kernel_abi X86_64) s xs) = K xs) \<longleftrightarrow>
         re \<noteq> ''r10'' \<and> rf \<noteq> ''r10'' \<and> rf \<noteq> ''r8''"
    (is "?all \<longleftrightarrow> ?safe")
proof
  assume ?safe
  then have "x86_64_safe (rd, re, rf)" using assms by (simp add: x86_64_safe_def)
  then show ?all
    using raw_call_passes [where 'a = 64, of X86_64 "(rd, re, rf)"] by (simp add: raw_call_def)
next
  assume ?all
  then have "fst (syscall_x86_64 rd re rf (K \<circ> kernel_abi X86_64) s [0, 1, 2, 3, 4, 5, 6])
      = K [0, 1, 2, 3, 4, 5, 6]" for K
    by simp
  from this [of "\<lambda>ys. ys ! 5"] this [of "\<lambda>ys. ys ! 6"] show ?safe
    by (auto simp: x86_64_args [OF assms] split: if_splits)
qed

lemma x86_64_moves_iff_witness:
  "\<not> (\<forall>K (xs :: 64 word list). length xs = 7 \<longrightarrow>
      fst (syscall_x86_64 ''r8'' ''r9'' ''r10'' (K \<circ> kernel_abi X86_64)
             \<lparr>gpr = \<lambda>_. 0, mem = \<lambda>_. 0\<rparr> xs) = K xs)"
  using x86_64_moves_iff [of "''r8''" "''r9''" "''r10''" "\<lparr>gpr = \<lambda>_. 0, mem = \<lambda>_. 0\<rparr>"]
  by (simp add: x86_64_allocatable_def)

text \<open>
  The i386 block leaves the stack pointer and the frame pointer as it found them, returns the
  kernel's answer in \<open>eax\<close>, and writes memory only in the two slots below the stack pointer.
\<close>

theorem syscall_i386_restores_stack:
  "syscall_i386 int80 s xs =
     (let ret = int80 (i386_enter xs s)
      in (ret, \<lparr>gpr = (gpr s)(''eax'' := ret, ''ebx'' := xs ! 1, ''ecx'' := xs ! 2,
                             ''edx'' := xs ! 3, ''esi'' := xs ! 4, ''edi'' := xs ! 5),
               mem = (mem s)(gpr s ''esp'' - 4 := xs ! 6,
                             gpr s ''esp'' - 8 := gpr s (''ebp'' :: string))\<rparr> :: 32 word cpu))"
proof -
  define s1 where "s1 = set_reg ''eax'' (int80 (i386_enter xs s)) (i386_enter xs s)"
  define s2 where "s2 = popl ''ebp'' s1"
  have four: "(4 :: 32 word) \<noteq> 0" by simp
  have regs: "gpr s1 = (gpr (i386_enter xs s))(''eax'' := int80 (i386_enter xs s))"
    by (auto simp: s1_def)
  have m: "mem s2 = (mem s)(gpr s ''esp'' - 4 := xs ! 6, gpr s ''esp'' - 8 := gpr s ''ebp'')"
    by (simp add: s2_def s1_def mem_i386_enter)
  have "gpr (set_reg ''esp'' (gpr s2 ''esp'' + 4) s2) =
      (gpr s)(''eax'' := int80 (i386_enter xs s), ''ebx'' := xs ! 1, ''ecx'' := xs ! 2,
              ''edx'' := xs ! 3, ''esi'' := xs ! 4, ''edi'' := xs ! 5)"
    by (rule ext)
       (simp add: s2_def regs gpr_i386_enter [OF four], simp add: s1_def mem_i386_enter)
  with m have "set_reg ''esp'' (gpr s2 ''esp'' + 4) s2 =
      \<lparr>gpr = (gpr s)(''eax'' := int80 (i386_enter xs s), ''ebx'' := xs ! 1, ''ecx'' := xs ! 2,
              ''edx'' := xs ! 3, ''esi'' := xs ! 4, ''edi'' := xs ! 5),
       mem = (mem s)(gpr s ''esp'' - 4 := xs ! 6, gpr s ''esp'' - 8 := gpr s ''ebp'')\<rparr>"
    by (intro cpu.equality) simp_all
  then show ?thesis
    unfolding syscall_i386_def Let_def s1_def [symmetric] s2_def [symmetric] by simp
qed

lemma list_up_to_seven:
  assumes "length xs \<le> 7"
  obtains "xs = []" | n where "xs = [n]" | n a where "xs = [n, a]" | n a b where "xs = [n, a, b]"
    | n a b c where "xs = [n, a, b, c]" | n a b c d where "xs = [n, a, b, c, d]"
    | n a b c d e where "xs = [n, a, b, c, d, e]" | n a b c d e f where "xs = [n, a, b, c, d, e, f]"
proof -
  have "length xs = 0 \<or> length xs = 1 \<or> length xs = 2 \<or> length xs = 3 \<or> length xs = 4 \<or>
      length xs = 5 \<or> length xs = 6 \<or> length xs = 7"
    using assms by linarith
  then show thesis
    by (elim disjE) (auto simp: length_Suc_conv eval_nat_numeral intro: that)
qed

text \<open>
  A call \<open>__syscall(n, ...)\<close> with up to six arguments expands to the gate with the
  missing arguments zero; with more than six the macro names nothing and does not compile.
\<close>

theorem syscall_macro_pads:
  fixes args :: "'w::zero list"
  assumes "args \<noteq> []"
  shows "syscall_macro args =
    (if length args \<le> 7 then Some (args @ replicate (7 - length args) 0) else None)"
proof (cases "length args \<le> 7")
  case True
  then show ?thesis
    by (cases rule: list_up_to_seven)
       (use assms in \<open>simp_all add: syscall_macro_def syscall_count_args_def eval_nat_numeral\<close>)
next
  case False
  then show ?thesis by (simp add: syscall_macro_def syscall_count_args_def nth_append)
qed

lemma syscall_macro_pads_witness:
  "syscall_macro [64, 1, 2, 3 :: nat] = Some [64, 1, 2, 3, 0, 0, 0]"
  using syscall_macro_pads [of "[64, 1, 2, 3 :: nat]"] by (simp add: numeral_nat)

text \<open>
  The gate turns exactly the results -4095 to -1 into -1 and stores the positive error number;
  every other result, large addresses that look negative included, passes with errno unchanged.
\<close>

theorem syscall_gate_errno_range:
  "syscall_gate_errno ret errno =
     (if sint ret \<in> {- 4095..- 1} then (- 1, word_of_int (- sint ret)) else (ret, errno))"
proof -
  have "ret <s 0 \<and> - 4095 \<le>s ret \<longleftrightarrow> sint ret \<in> {- 4095..- 1}"
    by (auto simp: word_sless_alt word_sle_eq)
  moreover have "(ucast (- ret) :: cint) = word_of_int (- sint ret)"
  proof -
    have "- ret = word_of_int (- sint ret)" by simp
    moreover have "(ucast (word_of_int k :: clong) :: cint) = word_of_int k" for k
      by transfer simp
    ultimately show ?thesis by metis
  qed
  ultimately show ?thesis by (simp add: syscall_gate_errno_def)
qed

section \<open>From the kernel's stack image to \<open>argc\<close>, \<open>argv\<close> and \<open>envp\<close>\<close>

text \<open>The words of \<open>ws\<close> lie in memory from \<open>sp\<close> upwards.\<close>

definition stack_image :: "('a::len word \<Rightarrow> 'a word) \<Rightarrow> 'a word \<Rightarrow> 'a word \<Rightarrow> 'a word list \<Rightarrow> bool" where
  "stack_image m wsz sp ws \<longleftrightarrow> (\<forall>i<length ws. m (sp + of_nat i * wsz) = ws ! i)"

definition words_at :: "('a::len word \<Rightarrow> 'a word) \<Rightarrow> 'a word \<Rightarrow> 'a word \<Rightarrow> nat \<Rightarrow> 'a word list" where
  "words_at m wsz p n = map (\<lambda>i. m (p + of_nat i * wsz)) [0..<n]"

lemma words_at_image:
  assumes "stack_image m wsz sp ws" and "k + n \<le> length ws"
  shows "words_at m wsz (sp + of_nat k * wsz) n = take n (drop k ws)"
proof (rule nth_equalityI)
  show "length (words_at m wsz (sp + of_nat k * wsz) n) = length (take n (drop k ws))"
    using assms(2) by (simp add: words_at_def)
  fix i
  assume "i < length (words_at m wsz (sp + of_nat k * wsz) n)"
  then have "i < n" "k + i < length ws" using assms(2) by (auto simp: words_at_def)
  moreover have "sp + of_nat k * wsz + of_nat i * wsz = sp + of_nat (k + i) * wsz"
    by (simp add: algebra_simps)
  ultimately have "words_at m wsz (sp + of_nat k * wsz) n ! i = m (sp + of_nat (k + i) * wsz)"
    by (simp add: words_at_def distrib_right add.assoc)
  also have "\<dots> = ws ! (k + i)"
    using assms(1) \<open>k + i < length ws\<close> by (simp only: stack_image_def)
  finally show "words_at m wsz (sp + of_nat k * wsz) n ! i = take n (drop k ws) ! i"
    using \<open>i < n\<close> assms(2) by simp
qed

lemma first_parameter_start_entry:
  assumes "(4 :: 'a::len word) \<noteq> 0"
  shows "first_parameter a (start_entry a ret_addr s) = stack_pointer a (s :: 'a word cpu)"
proof (cases a)
  case I386
  have "(m(p := v, p - c := r)) (p - c + c) = v" if "c \<noteq> 0" for m p and c v r :: "'a word"
    using that by simp
  from this [OF assms] show ?thesis
    unfolding I386 start_entry_def first_parameter_def stack_pointer_def pushl_def Let_def
    by (simp del: diff_add_cancel)
qed (simp_all add: start_entry_def first_parameter_def stack_pointer_def)

text \<open>
  From the stack the kernel builds (the count, the argument pointers, a null word, the
  environment pointers, a null word) the entry point and \<open>prep_main\<close> recover the three C
  parameters: \<open>argv\<close> and \<open>envp\<close> point to exactly these null-terminated vectors. On i386 the
  two words the entry point pushes must not wrap around into the image.
\<close>

theorem prep_main_finds_arguments:
  fixes s :: "'a::len word cpu"
  defines "ws \<equiv> \<lambda>args env :: 'a word list. of_nat (length args) # args @ [0] @ env @ [0]"
  assumes "(4 :: 'a word) \<noteq> 0"
    and "stack_image (mem s) wsz (stack_pointer a s) (ws args env)"
    and "\<forall>i<length (ws args env).
      stack_pointer a s + of_nat i * wsz \<notin> {stack_pointer a s - 4, stack_pointer a s - 8}"
    and "s' = start_entry a ret_addr s" and "pa = prep_main wsz (mem s') (first_parameter a s')"
  shows "pa_argc pa = of_nat (length args) \<and>
    words_at (mem s') wsz (pa_argv pa) (length args + 1) = args @ [0] \<and>
    words_at (mem s') wsz (pa_envp pa) (length env + 1) = env @ [0]"
proof -
  let ?sp = "stack_pointer a s"
  have sp: "first_parameter a s' = ?sp"
    using first_parameter_start_entry [OF assms(2)] by (simp add: assms(5))
  have "stack_image (mem s') wsz ?sp (ws args env)"
    using assms(3,4)
    by (cases a) (auto simp: assms(5) start_entry_def stack_image_def stack_pointer_def Let_def algebra_simps)
  note img = words_at_image [OF this]
  have "mem s' ?sp = of_nat (length args)"
    using img [of 0 1] by (simp add: words_at_def ws_def)
  then have pa: "pa = \<lparr>pa_argc = of_nat (length args), pa_argv = ?sp + of_nat 1 * wsz,
      pa_envp = ?sp + of_nat (length args + 2) * wsz\<rparr>"
    by (simp add: assms(6) sp prep_main_def Let_def algebra_simps)
  show ?thesis
    using img [of 1 "length args + 1"] img [of "length args + 2" "length env + 1"]
    by (simp add: pa ws_def)
qed

lemma prep_main_finds_arguments_witness:
  "let s = \<lparr>gpr = (\<lambda>_. 64), mem = (\<lambda>p. if p = 64 then 1 else if p = 72 then 500 else
                                    if p = 88 then 600 else 0)\<rparr> :: 64 word cpu;
       s' = start_entry AArch64 0 s;
       pa = prep_main 8 (mem s') (first_parameter AArch64 s')
   in words_at (mem s') 8 (pa_argv pa) 2 = [500, 0] \<and> words_at (mem s') 8 (pa_envp pa) 2 = [600, 0]"
proof -
  define s :: "64 word cpu" where "s = \<lparr>gpr = (\<lambda>_. 64), mem = (\<lambda>p. if p = 64 then 1 else if p = 72 then 500 else
                                    if p = 88 then 600 else 0)\<rparr>"
  have "stack_image (mem s) 8 (stack_pointer AArch64 s) (of_nat (length [500 :: 64 word]) # [500] @ [0] @ [600] @ [0])"
    by (simp add: s_def stack_image_def stack_pointer_def All_less_Suc)
  moreover have "\<forall>i<length (of_nat (length [500 :: 64 word]) # [500] @ [0] @ [600] @ [0]).
      stack_pointer AArch64 s + of_nat i * 8 \<notin> {stack_pointer AArch64 s - 4, stack_pointer AArch64 s - 8}"
    by (simp add: s_def stack_pointer_def All_less_Suc)
  ultimately have "pa_argc (prep_main 8 (mem (start_entry AArch64 0 s)) (first_parameter AArch64 (start_entry AArch64 0 s))) = of_nat (length [500 :: 64 word]) \<and>
      words_at (mem (start_entry AArch64 0 s)) 8 (pa_argv (prep_main 8 (mem (start_entry AArch64 0 s)) (first_parameter AArch64 (start_entry AArch64 0 s)))) (length [500 :: 64 word] + 1) = [500] @ [0] \<and>
      words_at (mem (start_entry AArch64 0 s)) 8 (pa_envp (prep_main 8 (mem (start_entry AArch64 0 s)) (first_parameter AArch64 (start_entry AArch64 0 s)))) (length [600 :: 64 word] + 1) = [600] @ [0]"
    by (intro prep_main_finds_arguments) simp_all
  then show ?thesis
    unfolding s_def [symmetric] Let_def by (simp add: numeral_2_eq_2)
qed

end
