(* ===== verification/Effects.thy ===== *)
theory Effects
  imports Digits SmallRt
begin

text \<open>
  User programs as interaction trees: a program prints text, makes system calls and continues
  with what the kernel answers, or ends. \<open>run\<close> executes a tree against an arbitrary kernel (a
  state transformer) and records the trace. The C library functions the programs use (\<open>syscall\<close>,
  \<open>printf\<close> conversions, \<open>atoi\<close>) and the argument vector are modelled here as well.
\<close>

section \<open>Programs and runs\<close>

text \<open>
  \<open>Replaced\<close> is a successful \<open>execve\<close>, \<open>Trapped\<close> is \<open>__builtin_trap\<close>, \<open>Faulted\<close> is an access
  through a null pointer or outside an object, or another undefined operation such as a signed overflow.
\<close>

datatype outcome = Exited cint | Trapped | Faulted | Replaced

datatype sysno =
    SYS_write | SYS_exit | SYS_openat | SYS_close | SYS_execve | SYS_reboot | SYS_ioctl | SYS_getuid
  | SYS_setuid | SYS_prctl | SYS_faccessat | SYS_faccessat2 | SYS_newfstatat | SYS_getpid
  | SYS_clock_gettime | SYS_nanosleep | SYS_close_range | SYS_epoll_pwait2 | SYS_clone3 | SYS_dup
  | SYS_fcntl | SYS_fstat | SYS_clone | SYS_swapoff | SYS_wait4 | SYS_sched_setaffinity
  | SYS_setpriority | SYS_setresuid | SYS_move_mount | SYS_open_tree | SYS_statfs
  | SYS_epoll_create1 | SYS_execveat | SYS_by_number | SYS_clock_gettime32 | SYS_setresuid16
  | LIB_malloc | LIB_free | LIB_opendir | LIB_readlink | LIB_closedir

text \<open>
  \<open>SYS_by_number\<close> is a call whose number the program computes; the number is its first argument.
  The \<open>LIB_\<close> numbers are C library calls whose effect is outside the program; opening a directory
  answers with the entries that reading it will give.

  An argument is a value or the address of the buffer \<open>'b\<close> that travels with the call; the reply
  is the word the kernel returns and the buffer after the call.
\<close>

datatype arg = Val clong | Ptr

datatype 'b req = Req (req_no: sysno) (req_args: "arg list") (req_buf: 'b)

type_synonym 'b reply = "clong \<times> 'b"

datatype 'b prog =
    Done outcome
  | Out string "'b prog"
  | Call "'b req" "'b reply \<Rightarrow> 'b prog"

datatype 'b event = Printed string | Called "'b req" "'b reply"

type_synonym ('k, 'b) kernel = "'k \<Rightarrow> 'b req \<Rightarrow> 'b reply \<times> 'k"

primrec run :: "('k, 'b) kernel \<Rightarrow> 'b prog \<Rightarrow> 'k \<Rightarrow> outcome \<times> 'b event list" where
  "run K (Done x) = (\<lambda>k. (x, []))"
| "run K (Out t p) = (\<lambda>k. apsnd ((#) (Printed t)) (run K p k))"
| "run K (Call q f) = (\<lambda>k. case K k q of (r, k') \<Rightarrow> apsnd ((#) (Called q r)) (run K (f r) k'))"

definition outcome_of :: "('k, 'b) kernel \<Rightarrow> 'b prog \<Rightarrow> 'k \<Rightarrow> outcome" where
  "outcome_of K p k = fst (run K p k)"

definition trace_of :: "('k, 'b) kernel \<Rightarrow> 'b prog \<Rightarrow> 'k \<Rightarrow> 'b event list" where
  "trace_of K p k = snd (run K p k)"

text \<open>\<open>sys\<close> is the raw call of the freestanding programs, \<open>libc_syscall\<close> the C library's
  \<open>syscall\<close>, which maps the error range to -1 like the errno gate.\<close>

definition sys :: "sysno \<Rightarrow> arg list \<Rightarrow> 'b \<Rightarrow> (clong \<Rightarrow> 'b \<Rightarrow> 'b prog) \<Rightarrow> 'b prog" where
  "sys n as b k = Call (Req n as b) (\<lambda>(r, b). k r b)"

definition libc_result :: "clong \<Rightarrow> clong" where
  "libc_result r = fst (syscall_gate_errno r 0)"

definition libc_syscall :: "sysno \<Rightarrow> arg list \<Rightarrow> 'b \<Rightarrow> (clong \<Rightarrow> 'b \<Rightarrow> 'b prog) \<Rightarrow> 'b prog" where
  "libc_syscall n as b k = sys n as b (\<lambda>r b. k (libc_result r) b)"

definition puts :: "string \<Rightarrow> 'b prog \<Rightarrow> 'b prog" where
  "puts t p = Out t p"

lemma libc_result_zero [simp]: "libc_result r = 0 \<longleftrightarrow> r = 0"
  by (auto simp: libc_result_def syscall_gate_errno_def)

section \<open>A logic of traces\<close>

text \<open>
  A property of every run: \<open>verified p h Q\<close> when, after the history \<open>h\<close>, every sequence of
  replies leads to an outcome and a trace in \<open>Q\<close>. The rules follow the tree.
\<close>

primrec verified :: "'b prog \<Rightarrow> 'b event list \<Rightarrow> (outcome \<Rightarrow> 'b event list \<Rightarrow> bool) \<Rightarrow> bool" where
  "verified (Done x) = (\<lambda>h Q. Q x h)"
| "verified (Out t p) = (\<lambda>h Q. verified p (h @ [Printed t]) Q)"
| "verified (Call q f) = (\<lambda>h Q. \<forall>r. verified (f r) (h @ [Called q r]) Q)"

lemma verified_run:
  "verified p h Q \<Longrightarrow> Q (fst (run K p k)) (h @ snd (run K p k))"
proof (induction p arbitrary: h k)
  case (Out t p)
  then show ?case using Out.IH [of "h @ [Printed t]" k] by simp
next
  case (Call q f)
  obtain r k' where K: "K k q = (r, k')" by fastforce
  have "verified (f r) (h @ [Called q r]) Q" using Call.prems by (cases r) simp
  then show ?case
    using Call.IH [OF rangeI, of r "h @ [Called q r]" k'] K by simp
qed simp

lemma verifiedI:
  assumes "verified p [] Q"
  shows "Q (outcome_of K p k) (trace_of K p k)"
  using verified_run [OF assms] by (simp add: outcome_of_def trace_of_def)

lemma verified_sys [simp]:
  "verified (sys n as b f) h Q \<longleftrightarrow> (\<forall>r b'. verified (f r b') (h @ [Called (Req n as b) (r, b')]) Q)"
  by (simp add: sys_def)

lemma verified_libc [simp]:
  "verified (libc_syscall n as b f) h Q \<longleftrightarrow>
     (\<forall>r b'. verified (f (libc_result r) b') (h @ [Called (Req n as b) (r, b')]) Q)"
  by (simp add: libc_syscall_def)

lemma verified_puts [simp]: "verified (puts t p) h Q \<longleftrightarrow> verified p (h @ [Printed t]) Q"
  by (simp add: puts_def)

lemma run_sys [simp]:
  "run K (sys n as b f) k =
     (case K k (Req n as b) of ((r, b'), k') \<Rightarrow> apsnd ((#) (Called (Req n as b) (r, b'))) (run K (f r b') k'))"
  by (simp add: sys_def split: prod.splits)

lemma run_libc [simp]:
  "run K (libc_syscall n as b f) k =
     (case K k (Req n as b) of
        ((r, b'), k') \<Rightarrow> apsnd ((#) (Called (Req n as b) (r, b'))) (run K (f (libc_result r) b') k'))"
  by (simp add: libc_syscall_def)

lemma run_puts [simp]: "run K (puts t p) k = apsnd ((#) (Printed t)) (run K p k)"
  by (simp add: puts_def)

section \<open>Protocols\<close>

text \<open>
  An abstract specification of a program's calls: \<open>spec\<close> takes a protocol state over a call and its
  reply, or refuses it. A program that conforms has only accepted traces, whatever the kernel.
\<close>

type_synonym ('s, 'b) protocol = "'s \<Rightarrow> 'b req \<Rightarrow> 'b reply \<Rightarrow> 's option"

fun accepted :: "('s, 'b) protocol \<Rightarrow> 's \<Rightarrow> 'b event list \<Rightarrow> bool" where
  "accepted spec s [] = True"
| "accepted spec s (Printed t # tr) = accepted spec s tr"
| "accepted spec s (Called q r # tr) = (case spec s q r of None \<Rightarrow> False | Some s' \<Rightarrow> accepted spec s' tr)"

primrec conforms :: "('s, 'b) protocol \<Rightarrow> 'b prog \<Rightarrow> 's \<Rightarrow> bool" where
  "conforms spec (Done x) = (\<lambda>s. True)"
| "conforms spec (Out t p) = conforms spec p"
| "conforms spec (Call q f) =
     (\<lambda>s. \<forall>r. case spec s q r of None \<Rightarrow> False | Some s' \<Rightarrow> conforms spec (f r) s')"

lemma case_option_ex: "(case x of None \<Rightarrow> False | Some y \<Rightarrow> P y) \<longleftrightarrow> (\<exists>y. x = Some y \<and> P y)"
  by (cases x) simp_all

lemma conforms_accepted:
  "conforms spec p s \<Longrightarrow> accepted spec s (trace_of K p k)"
proof (induction p arbitrary: s k)
  case (Call q f)
  obtain r k' where K: "K k q = (r, k')" by fastforce
  obtain s' where "spec s q r = Some s'" "conforms spec (f r) s'"
    using Call.prems by (cases r) (auto simp: case_option_ex)
  with Call.IH [OF rangeI] K show ?case by (simp add: trace_of_def)
qed (simp_all add: trace_of_def)

lemma conforms_sys [simp]:
  "conforms spec (sys n as b f) s \<longleftrightarrow>
     (\<forall>r b'. \<exists>s'. spec s (Req n as b) (r, b') = Some s' \<and> conforms spec (f r b') s')"
  by (simp add: sys_def case_option_ex)

lemma conforms_libc [simp]:
  "conforms spec (libc_syscall n as b f) s \<longleftrightarrow>
     (\<forall>r b'. \<exists>s'. spec s (Req n as b) (r, b') = Some s' \<and> conforms spec (f (libc_result r) b') s')"
  by (simp add: libc_syscall_def)

lemma conforms_puts [simp]: "conforms spec (puts t p) s \<longleftrightarrow> conforms spec p s"
  by (simp add: puts_def)

text \<open>A kernel that gives a fixed list of answers, for stating what a program does with them.\<close>

fun script :: "('b reply list, 'b) kernel" where
  "script [] q = ((- 38, req_buf q), [])"
| "script (r # rs) q = (r, rs)"

section \<open>The argument vector\<close>

text \<open>
  \<open>argv[i]\<close>: the string, a null pointer right after the last one, or an access past the vector.
\<close>

datatype arg_read = Str string | Null | Beyond

definition argv_at :: "string list \<Rightarrow> nat \<Rightarrow> arg_read" where
  "argv_at argv i = (if i < length argv then Str (argv ! i) else if i = length argv then Null else Beyond)"

text \<open>The first character of a C string, as its byte; the terminator of an empty one.\<close>

definition first_char :: "string \<Rightarrow> nat" where
  "first_char s = (case s of [] \<Rightarrow> 0 | c # _ \<Rightarrow> of_char c)"

section \<open>C library conversions\<close>

definition fmt_d :: "cint \<Rightarrow> string" where
  "fmt_d x = (if sint x < 0 then CHR ''-'' # show_base 10 (nat (- sint x)) else show_base 10 (nat (sint x)))"

definition fmt_u :: "u32 \<Rightarrow> string" where
  "fmt_u x = show_base 10 (unat x)"

definition fmt_ld :: "clong \<Rightarrow> string" where
  "fmt_ld x = (if sint x < 0 then CHR ''-'' # show_base 10 (nat (- sint x)) else show_base 10 (nat (sint x)))"

definition fmt_lu :: "u64 \<Rightarrow> string" where
  "fmt_lu x = show_base 10 (unat x)"

definition fmt_x :: "u32 \<Rightarrow> string" where
  "fmt_x x = show_base 16 (unat x)"

definition newline :: string where
  "newline = [char_of (10 :: nat)]"

definition tab :: string where
  "tab = [char_of (9 :: nat)]"

text \<open>
  \<open>atoi\<close> as \<open>(int) strtol(s, NULL, 10)\<close>: white space, a sign, the longest run of digits,
  saturation at the range of \<open>long\<close>, then truncation to \<open>int\<close>.
\<close>

definition is_space :: "char \<Rightarrow> bool" where
  "is_space c = (let k = of_char c :: nat in k = 32 \<or> 9 \<le> k \<and> k \<le> 13)"

definition is_digit :: "char \<Rightarrow> bool" where
  "is_digit c = (let k = of_char c :: nat in 48 \<le> k \<and> k \<le> 57)"

definition strtol10 :: "string \<Rightarrow> int" where
  "strtol10 s =
     (let s = dropWhile is_space s;
          (neg, s) = (case s of c # t \<Rightarrow> if c = CHR ''-'' then (True, t) else if c = CHR ''+'' then (False, t) else (False, s)
                      | [] \<Rightarrow> (False, s));
          v = int (horner 10 (map (\<lambda>c. of_char c - 48) (takeWhile is_digit s)));
          v = (if neg then - v else v)
      in max (- (2 ^ 63)) (min (2 ^ 63 - 1) v))"

definition atoi :: "string \<Rightarrow> cint" where
  "atoi s = word_of_int (strtol10 s)"

text \<open>
  \<open>strtoul(s, NULL, 0)\<close>: base 16 after 0x followed by a digit, base 8 after a leading 0, else 10;
  saturation at the largest value, then negation modulo 2^64 for a minus sign.
\<close>

definition digits_prefix :: "nat \<Rightarrow> string \<Rightarrow> nat list" where
  "digits_prefix b s = map (\<lambda>c. the (char_digit b c)) (takeWhile (\<lambda>c. char_digit b c \<noteq> None) s)"

definition strtoul0 :: "string \<Rightarrow> u64" where
  "strtoul0 s =
     (let s = dropWhile is_space s;
          neg = (s \<noteq> [] \<and> hd s = CHR ''-'');
          s = (if s \<noteq> [] \<and> (hd s = CHR ''-'' \<or> hd s = CHR ''+'') then tl s else s);
          v = (if (take 2 s = ''0x'' \<or> take 2 s = ''0X'') \<and> digits_prefix 16 (drop 2 s) \<noteq> []
               then horner 16 (digits_prefix 16 (drop 2 s))
               else if s \<noteq> [] \<and> hd s = CHR ''0'' then horner 8 (digits_prefix 8 s)
               else horner 10 (digits_prefix 10 s))
      in if 2 ^ 64 \<le> v then - 1 else if neg then - of_nat v else of_nat v)"

end
