(* ===== verification/CLayout.thy ===== *)
theory CLayout
  imports Prelude
begin

text \<open>
  C object layout on a little-endian LP64 target: sizes, alignments and field offsets of struct
  and union types, and reads and writes in the byte image of an object. An access to a union
  member is an access to the shared bytes.
\<close>

section \<open>Types\<close>

datatype ctype = Scalar nat | Arr nat ctype | Struct cfields | Union cfields
  and cfields = NoField | Field string ctype cfields

definition align_up :: "nat \<Rightarrow> nat \<Rightarrow> nat" where
  "align_up n a = (n + a - 1) div a * a"

primrec alignof :: "ctype \<Rightarrow> nat" and falign :: "cfields \<Rightarrow> nat" where
  "alignof (Scalar n) = n"
| "alignof (Arr k t) = alignof t"
| "alignof (Struct fs) = falign fs"
| "alignof (Union fs) = falign fs"
| "falign NoField = 1"
| "falign (Field n t fs) = max (alignof t) (falign fs)"

text \<open>\<open>fend\<close> is the end of the last field of a struct laid out from an offset, \<open>fmax\<close> the size of
  the largest member of a union.\<close>

fun csizeof :: "ctype \<Rightarrow> nat" and fend :: "cfields \<Rightarrow> nat \<Rightarrow> nat" and fmax :: "cfields \<Rightarrow> nat" where
  "csizeof (Scalar n) = n"
| "csizeof (Arr k t) = k * csizeof t"
| "csizeof (Struct fs) = align_up (fend fs 0) (falign fs)"
| "csizeof (Union fs) = align_up (fmax fs) (falign fs)"
| "fend NoField off = off"
| "fend (Field n t fs) off = fend fs (align_up off (alignof t) + csizeof t)"
| "fmax NoField = 0"
| "fmax (Field n t fs) = max (csizeof t) (fmax fs)"

primrec struct_field :: "cfields \<Rightarrow> string \<Rightarrow> nat \<Rightarrow> (nat \<times> ctype) option" where
  "struct_field NoField name = (\<lambda>off. None)"
| "struct_field (Field n t fs) name =
     (\<lambda>off. if n = name then Some (align_up off (alignof t), t)
            else struct_field fs name (align_up off (alignof t) + csizeof t))"

primrec union_field :: "cfields \<Rightarrow> string \<Rightarrow> (nat \<times> ctype) option" where
  "union_field NoField name = None"
| "union_field (Field n t fs) name = (if n = name then Some (0, t) else union_field fs name)"

definition member :: "ctype \<Rightarrow> string \<Rightarrow> (nat \<times> ctype) option" where
  "member t name =
     (case t of Struct fs \<Rightarrow> struct_field fs name 0 | Union fs \<Rightarrow> union_field fs name | _ \<Rightarrow> None)"

fun offset_of :: "ctype \<Rightarrow> string list \<Rightarrow> nat option" where
  "offset_of t [] = Some 0"
| "offset_of t (n # ns) =
     (case member t n of None \<Rightarrow> None | Some (off, u) \<Rightarrow> map_option ((+) off) (offset_of u ns))"

section \<open>Byte images\<close>

type_synonym image = "u8 list"

definition put_at :: "nat \<Rightarrow> u8 list \<Rightarrow> image \<Rightarrow> image" where
  "put_at off bs img = take off img @ bs @ drop (off + length bs) img"

definition get_at :: "nat \<Rightarrow> nat \<Rightarrow> image \<Rightarrow> u8 list" where
  "get_at off n img = take n (drop off img)"

definition le_bytes :: "u32 \<Rightarrow> u8 list" where
  "le_bytes w = map (\<lambda>i. ucast (drop_bit (8 * i) w)) [0, 1, 2, 3]"

definition le_word32 :: "u8 list \<Rightarrow> u32" where
  "le_word32 bs = fold (\<lambda>i w. w OR push_bit (8 * i) (ucast (bs ! i))) [0, 1, 2, 3] 0"

definition byte_char :: "u8 \<Rightarrow> char" where
  "byte_char b = char_of (unat b)"

definition char_byte :: "char \<Rightarrow> u8" where
  "char_byte c = of_nat (of_char c)"

text \<open>The C string at an offset: the bytes up to the first zero byte of the object.\<close>

definition cstring_at :: "nat \<Rightarrow> image \<Rightarrow> string" where
  "cstring_at off img = map byte_char (takeWhile (\<lambda>b. b \<noteq> 0) (drop off img))"

text \<open>\<open>strncpy\<close>: at most \<open>n\<close> characters of the source, the rest of the \<open>n\<close> bytes zero.\<close>

definition strncpy_bytes :: "string \<Rightarrow> nat \<Rightarrow> u8 list" where
  "strncpy_bytes s n = (let t = map char_byte (take n s) in t @ replicate (n - length t) 0)"

named_theorems image_simps

lemma length_put_at [image_simps]: "off + length bs \<le> length img \<Longrightarrow> length (put_at off bs img) = length img"
  by (simp add: put_at_def)

lemma get_put_same [image_simps]:
  "off + length bs \<le> length img \<Longrightarrow> n = length bs \<Longrightarrow> get_at off n (put_at off bs img) = bs"
  by (simp add: get_at_def put_at_def)

lemma nth_put_at:
  "off + length bs \<le> length img \<Longrightarrow> i < length img \<Longrightarrow>
     put_at off bs img ! i = (if off \<le> i \<and> i < off + length bs then bs ! (i - off) else img ! i)"
  by (auto simp: put_at_def nth_append min_def)

lemma get_put_disjoint [image_simps]:
  assumes "off + length bs \<le> length img" and "off' + n \<le> off \<or> off + length bs \<le> off'" and "off' + n \<le> length img"
  shows "get_at off' n (put_at off bs img) = get_at off' n img"
proof (rule nth_equalityI)
  fix i
  assume "i < length (get_at off' n (put_at off bs img))"
  then have "i < n" "off' + i < length img" using assms by (auto simp: get_at_def)
  then show "get_at off' n (put_at off bs img) ! i = get_at off' n img ! i"
    using assms by (auto simp: get_at_def nth_put_at length_put_at)
qed (use assms in \<open>simp add: get_at_def length_put_at\<close>)

lemma length_strncpy_bytes [image_simps]: "length (strncpy_bytes s n) = n"
  by (simp add: strncpy_bytes_def Let_def)

lemma length_le_bytes [image_simps]: "length (le_bytes w) = 4"
  by (simp add: le_bytes_def)

lemma le_word32_bytes: "le_word32 (le_bytes w) = w"
proof (rule bit_word_eqI)
  fix n
  assume "n < LENGTH(32)"
  then have "n < 8 \<or> 8 \<le> n \<and> n < 16 \<or> 16 \<le> n \<and> n < 24 \<or> 24 \<le> n \<and> n < 32" by auto
  then show "bit (le_word32 (le_bytes w)) n = bit w n"
    by (elim disjE conjE) (auto simp: le_word32_def le_bytes_def bit_simps)
qed

end
