(* ===== verification/AppProfile.thy ===== *)
theory AppProfile
  imports Effects CLayout
begin

text \<open>
  The KernelSU profile tool \<open>kernelsu/ksu_uapi/profile.c\<close> with the structures of
  \<open>uapi_profile.h\<close>, and the version probe \<open>uapi.c\<close>. The profile is the byte image of
  \<open>struct app_profile\<close>; its anonymous union is the member \<open>config\<close>.
\<close>

section \<open>Structures and request numbers\<close>

definition u32_t :: ctype where "u32_t = Scalar 4"
definition s32_t :: ctype where "s32_t = Scalar 4"
definition u64_t :: ctype where "u64_t = Scalar 8"
definition char_t :: ctype where "char_t = Scalar 1"
definition bool_t :: ctype where "bool_t = Scalar 1"

definition KSU_MAX_PACKAGE_NAME :: nat where "KSU_MAX_PACKAGE_NAME = 256"
definition KSU_MAX_GROUPS :: nat where "KSU_MAX_GROUPS = 32"
definition KSU_SELINUX_DOMAIN :: nat where "KSU_SELINUX_DOMAIN = 64"
definition KSU_APP_PROFILE_VER :: u32 where "KSU_APP_PROFILE_VER = 4"

definition capabilities_t :: ctype where
  "capabilities_t = Struct (Field ''effective'' u64_t (Field ''permitted'' u64_t (Field ''inheritable'' u64_t NoField)))"

definition root_profile_t :: ctype where
  "root_profile_t = Struct
     (Field ''uid'' s32_t (Field ''gid'' s32_t (Field ''groups_count'' u32_t
     (Field ''groups'' (Arr KSU_MAX_GROUPS s32_t) (Field ''capabilities'' capabilities_t
     (Field ''selinux_domain'' (Arr KSU_SELINUX_DOMAIN char_t) (Field ''namespaces'' s32_t
     (Field ''flags'' u64_t NoField))))))))"

definition non_root_profile_t :: ctype where
  "non_root_profile_t = Struct (Field ''umount_modules'' bool_t NoField)"

definition rp_config_t :: ctype where
  "rp_config_t = Struct (Field ''use_default'' bool_t (Field ''template_name'' (Arr KSU_MAX_PACKAGE_NAME char_t)
     (Field ''profile'' root_profile_t NoField)))"

definition nrp_config_t :: ctype where
  "nrp_config_t = Struct (Field ''use_default'' bool_t (Field ''profile'' non_root_profile_t NoField))"

definition app_profile_t :: ctype where
  "app_profile_t = Struct
     (Field ''version'' u32_t (Field ''key'' (Arr KSU_MAX_PACKAGE_NAME char_t) (Field ''curr_uid'' s32_t
     (Field ''allow_su'' bool_t (Field ''config''
       (Union (Field ''rp_config'' rp_config_t (Field ''nrp_config'' nrp_config_t NoField))) NoField)))))"

lemmas app_profile_types = u32_t_def s32_t_def u64_t_def char_t_def bool_t_def KSU_MAX_PACKAGE_NAME_def
  KSU_MAX_GROUPS_def KSU_SELINUX_DOMAIN_def capabilities_t_def root_profile_t_def non_root_profile_t_def
  rp_config_t_def nrp_config_t_def app_profile_t_def

definition profile_off :: "string list \<Rightarrow> nat" where
  "profile_off path = the (offset_of app_profile_t path)"

definition zero_profile :: image where
  "zero_profile = replicate (csizeof app_profile_t) 0"

definition IOC :: "nat \<Rightarrow> char \<Rightarrow> nat \<Rightarrow> nat \<Rightarrow> clong" where
  "IOC dir ty nr sz = of_nat (dir * 2 ^ 30 + sz * 2 ^ 16 + of_char ty * 2 ^ 8 + nr)"

definition KSU_IOCTL_GET_INFO_LEGACY :: clong where "KSU_IOCTL_GET_INFO_LEGACY = IOC 2 CHR ''K'' 2 0"
definition KSU_IOCTL_GET_INFO :: clong where "KSU_IOCTL_GET_INFO = IOC 2 CHR ''K'' 2 16"
definition KSU_IOCTL_GET_MANAGER_UID :: clong where "KSU_IOCTL_GET_MANAGER_UID = IOC 2 CHR ''K'' 10 0"
definition KSU_IOCTL_GET_APP_PROFILE :: clong where "KSU_IOCTL_GET_APP_PROFILE = IOC 3 CHR ''K'' 11 0"
definition KSU_IOCTL_SET_APP_PROFILE :: clong where "KSU_IOCTL_SET_APP_PROFILE = IOC 1 CHR ''K'' 12 0"

definition KSU_INSTALL_MAGIC1 :: clong where "KSU_INSTALL_MAGIC1 = 0xDEADBEEF"
definition KSU_INSTALL_MAGIC2 :: clong where "KSU_INSTALL_MAGIC2 = 0xCAFEBABE"

text \<open>What the pointer argument of a call refers to.\<close>

datatype uapi_buf =
    NoBuf
  | FdBuf cint
  | InfoBuf image
  | UidBuf u32
  | ProfileBuf image
  | FeatureBuf image
  | WordsBuf "clong list"
  | TextBuf string
  | ExecBuf string "string list" "string list"
  | UmountBuf u32 u8 image
  | DirBuf "(u8 \<times> string) list"
  | PathsBuf string string
  | SulogBuf u64 image

type_synonym uapi = "uapi_buf prog"

definition fd_after :: "uapi_buf \<Rightarrow> cint \<Rightarrow> cint" where
  "fd_after b old = (case b of FdBuf fd \<Rightarrow> fd | _ \<Rightarrow> old)"

definition uid_after :: "uapi_buf \<Rightarrow> u32 \<Rightarrow> u32" where
  "uid_after b old = (case b of UidBuf u \<Rightarrow> u | _ \<Rightarrow> old)"

text \<open>The kernel writes at most the object it is given.\<close>

definition image_after :: "uapi_buf \<Rightarrow> image \<Rightarrow> image" where
  "image_after b old =
     (case b of
        ProfileBuf img \<Rightarrow> if length img = length old then img else old
      | InfoBuf img \<Rightarrow> if length img = length old then img else old
      | _ \<Rightarrow> old)"

section \<open>Accesses to the profile\<close>

definition get_flag :: "string list \<Rightarrow> image \<Rightarrow> bool" where
  "get_flag path img = (img ! profile_off path \<noteq> 0)"

definition set_flag :: "string list \<Rightarrow> bool \<Rightarrow> image \<Rightarrow> image" where
  "set_flag path v = put_at (profile_off path) [if v then 1 else 0]"

definition get_u32 :: "string list \<Rightarrow> image \<Rightarrow> u32" where
  "get_u32 path img = le_word32 (get_at (profile_off path) 4 img)"

definition set_u32 :: "string list \<Rightarrow> u32 \<Rightarrow> image \<Rightarrow> image" where
  "set_u32 path w = put_at (profile_off path) (le_bytes w)"

definition profile_key :: "image \<Rightarrow> string" where
  "profile_key img = cstring_at (profile_off [''key'']) img"

definition key_empty :: "image \<Rightarrow> bool" where
  "key_empty img = (img ! profile_off [''key''] = 0)"

abbreviation path_rp :: "string list \<Rightarrow> string list" where
  "path_rp p \<equiv> ''config'' # ''rp_config'' # p"

abbreviation path_nrp :: "string list \<Rightarrow> string list" where
  "path_nrp p \<equiv> ''config'' # ''nrp_config'' # p"

definition stamp :: "cint \<Rightarrow> image \<Rightarrow> image" where
  "stamp req_uid img = set_u32 [''curr_uid''] req_uid (set_u32 [''version''] KSU_APP_PROFILE_VER img)"

definition umount_image :: "bool \<Rightarrow> image \<Rightarrow> image" where
  "umount_image v img =
     set_flag (path_nrp [''profile'', ''umount_modules'']) v (set_flag (path_nrp [''use_default'']) False img)"

definition create_image :: "cint \<Rightarrow> string \<Rightarrow> image \<Rightarrow> image" where
  "create_image req_uid name img =
     (let img = stamp req_uid img;
          img = put_at (profile_off [''key'']) (strncpy_bytes name (KSU_MAX_PACKAGE_NAME - 1)) img;
          img = set_flag [''allow_su''] False img;
          img = set_flag (path_nrp [''use_default'']) True img
      in set_flag (path_nrp [''profile'', ''umount_modules'']) False img)"

definition ksu_domain :: string where
  "ksu_domain = ''u:r:ksu:s0''"

definition root_image :: "bool \<Rightarrow> image \<Rightarrow> image" where
  "root_image allow img =
     (let img = set_flag [''allow_su''] allow img
      in if get_flag [''allow_su''] img then
           (let img = put_at (profile_off (path_nrp [])) (replicate (csizeof rp_config_t) 0) img;
                img = set_flag (path_rp [''use_default'']) True img
            in put_at (profile_off (path_rp [''profile'', ''selinux_domain'']))
                 (map char_byte ksu_domain @ [0]) img)
         else img)"

section \<open>The commands\<close>

definition err :: "string \<Rightarrow> uapi" where
  "err t = puts (t @ newline) (Done (Exited 1))"

definition ioctl :: "cint \<Rightarrow> clong \<Rightarrow> uapi_buf \<Rightarrow> (clong \<Rightarrow> uapi_buf \<Rightarrow> uapi) \<Rightarrow> uapi" where
  "ioctl fd cmd b k = libc_syscall SYS_ioctl [Val (scast fd), Val cmd, Ptr] b k"

text \<open>
  The steps every command starts with: the manager's uid, the requested uid, becoming the
  manager. \<open>cmd0\<close> is the content of \<open>cmd\<close> before the call.
\<close>

definition as_manager :: "cint \<Rightarrow> u32 \<Rightarrow> string \<Rightarrow> bool \<Rightarrow> string \<Rightarrow> (cint \<Rightarrow> uapi) \<Rightarrow> uapi" where
  "as_manager fd cmd0 uid_arg no_package usage k =
     ioctl fd KSU_IOCTL_GET_MANAGER_UID (UidBuf cmd0) (\<lambda>r b.
       let ret = ucast r :: cint; uid = uid_after b cmd0
       in if ret \<noteq> 0 \<or> uid = 0 then err ''Error: Manager not installed!''
          else
            (let req_uid = atoi uid_arg
             in if req_uid <s 10000 \<or> no_package then err usage
                else libc_syscall SYS_setuid [Val (ucast uid)] NoBuf (\<lambda>r _.
                  if r \<noteq> 0 then err ''Error: setuid fail!'' else k req_uid)))"

definition get_profile :: "cint \<Rightarrow> image \<Rightarrow> (image \<Rightarrow> uapi) \<Rightarrow> uapi" where
  "get_profile fd img k =
     ioctl fd KSU_IOCTL_GET_APP_PROFILE (ProfileBuf img) (\<lambda>r b.
       if r \<noteq> 0 then err ''Error: no profile!''
       else (let img = image_after b img
             in if key_empty img then err ''Error: no profile!'' else k img))"

definition set_profile :: "cint \<Rightarrow> image \<Rightarrow> string \<Rightarrow> (image \<Rightarrow> uapi) \<Rightarrow> uapi" where
  "set_profile fd img failed k =
     ioctl fd KSU_IOCTL_SET_APP_PROFILE (ProfileBuf img) (\<lambda>r b.
       if r \<noteq> 0 then err failed else k (image_after b img))"

definition yes_no :: "bool \<Rightarrow> string" where
  "yes_no b = (if b then ''yes'' else ''no'')"

definition profile_lines :: "image \<Rightarrow> string list" where
  "profile_lines img =
     [''profile info'', ''pkg_name: '' @ tab @ profile_key img,
      ''uid: '' @ tab @ tab @ fmt_d (get_u32 [''curr_uid''] img)] @
     (if get_flag [''allow_su''] img then
        [''su: '' @ tab @ tab @ ''yes'',
         ''use_default: '' @ tab @ yes_no (get_flag (path_rp [''use_default'']) img),
         ''root uid/gid: '' @ tab @ fmt_d (get_u32 (path_rp [''profile'', ''uid'']) img) @ ''/'' @
           fmt_d (get_u32 (path_rp [''profile'', ''gid'']) img)]
      else
        [''su: '' @ tab @ tab @ ''no'',
         ''use_default: '' @ tab @ yes_no (get_flag (path_nrp [''use_default'']) img),
         ''umount: '' @ tab @
           (if get_flag (path_nrp [''profile'', ''umount_modules'']) img then ''true'' else ''false'')])"

definition put_lines :: "string list \<Rightarrow> uapi \<Rightarrow> uapi" where
  "put_lines ls p = foldr (\<lambda>l p. puts (l @ newline) p) ls p"

definition getuidinfo :: "cint \<Rightarrow> string list \<Rightarrow> uapi" where
  "getuidinfo fd argv =
     as_manager fd 0 (argv ! 2) False ''Error: bad uid!'' (\<lambda>req_uid.
       get_profile fd (stamp req_uid zero_profile) (\<lambda>img.
         put_lines (profile_lines img) (Done (Exited 0))))"

text \<open>
  The other commands are reached by a jump over the initialiser of \<open>cmd\<close>; \<open>stale\<close> is what its
  storage then holds.
\<close>

definition setumount :: "u32 \<Rightarrow> cint \<Rightarrow> string list \<Rightarrow> uapi" where
  "setumount stale fd argv =
     as_manager fd stale (argv ! 2) False ''Error: bad uid!'' (\<lambda>req_uid.
       get_profile fd (stamp req_uid zero_profile) (\<lambda>img.
         if get_flag [''allow_su''] img then err ''Error: umount for SU app is nono!''
         else set_profile fd (umount_image (first_char (argv ! 3) = 49) img) ''Error: set umount fail!'' (\<lambda>img.
           puts (''Success: umount set to '' @ fmt_d (if atoi (argv ! 3) \<noteq> 0 then 1 else 0) @
                 '' app with uid: '' @ fmt_d req_uid @ '' '' @ newline) (Done (Exited 0)))))"

definition create_profile :: "u32 \<Rightarrow> cint \<Rightarrow> string list \<Rightarrow> uapi" where
  "create_profile stale fd argv =
     as_manager fd stale (argv ! 2) (argv_at argv 3 = Null) ''Error: Usage --create <uid> <package_name>'' (\<lambda>req_uid.
       set_profile fd (create_image req_uid (argv ! 3) zero_profile) ''Error: Failed to create app profile!'' (\<lambda>img.
         puts (''Success: created new profile for '' @ profile_key img @ '' (UID: '' @ fmt_d req_uid @ '')'' @ newline)
           (Done (Exited 0))))"

definition set_root :: "u32 \<Rightarrow> cint \<Rightarrow> string list \<Rightarrow> uapi" where
  "set_root stale fd argv =
     as_manager fd stale (argv ! 2) False ''Error: bad uid!'' (\<lambda>req_uid.
       get_profile fd (stamp req_uid zero_profile) (\<lambda>img.
         set_profile fd (root_image (first_char (argv ! 3) = 49) img) ''Error: set root fail!'' (\<lambda>img.
           puts (''Success: root set to '' @ fmt_d (if first_char (argv ! 3) = 49 then 1 else 0) @ '' for '' @
                 profile_key img @ '' with uid: '' @ fmt_d req_uid @ '' '' @ newline) (Done (Exited 0)))))"

definition help_lines :: "string \<Rightarrow> string list" where
  "help_lines argv0 =
     [argv0 @ '' --getuidinfo 12345'' @ tab @ '' to print info on app with uid'',
      argv0 @ '' --setumount 12345 1/0'' @ tab @ '' to toggle umount for app with uid'',
      argv0 @ '' --create 12345 com.google.chrome'' @ tab @ '' to create a new profile'',
      argv0 @ '' --setroot 12345 0/1'' @ tab @ '' to set root rights to uid'']"

definition dispatch :: "u32 \<Rightarrow> cint \<Rightarrow> string list \<Rightarrow> uapi" where
  "dispatch stale fd argv =
     (case argv_at argv 1 of
        Beyond \<Rightarrow> Done Faulted
      | arg1 \<Rightarrow>
          if arg1 = Str ''--getuidinfo'' \<and> argv_at argv 2 \<noteq> Null then getuidinfo fd argv
          else if arg1 = Str ''--setumount'' \<and> argv_at argv 2 \<noteq> Null \<and> argv_at argv 3 \<noteq> Null then setumount stale fd argv
          else if arg1 = Str ''--create'' \<and> argv_at argv 2 \<noteq> Null \<and> argv_at argv 3 \<noteq> Null then create_profile stale fd argv
          else if arg1 = Str ''--setroot'' \<and> argv_at argv 2 \<noteq> Null \<and> argv_at argv 3 \<noteq> Null then set_root stale fd argv
          else put_lines (help_lines (argv ! 0)) (Done (Exited 0)))"

text \<open>The legacy retry passes the request number where the descriptor belongs.\<close>

definition profile_main :: "u32 \<Rightarrow> string list \<Rightarrow> uapi" where
  "profile_main stale argv =
     libc_syscall SYS_getuid [] NoBuf (\<lambda>r _.
       if r \<noteq> 0 then err ''Error: need root!''
       else libc_syscall SYS_reboot [Val KSU_INSTALL_MAGIC1, Val KSU_INSTALL_MAGIC2, Val 0, Ptr] (FdBuf 0) (\<lambda>_ b.
         let fd = fd_after b 0
         in if fd = 0 then Done (Exited 1)
            else ioctl fd KSU_IOCTL_GET_INFO (InfoBuf (replicate 16 0)) (\<lambda>r b.
              if (ucast r :: cint) \<noteq> 0 then
                libc_syscall SYS_ioctl [Val KSU_IOCTL_GET_INFO_LEGACY, Ptr] (InfoBuf (image_after b (replicate 16 0))) (\<lambda>r _.
                  if (ucast r :: cint) \<noteq> 0 then err ''Error: KernelSU not installed?''
                  else err ''Error: KernelSU too old!'')
              else dispatch stale fd argv)))"

text \<open>\<open>uapi.c\<close>: the exit status is the reported \<open>uapi_version\<close>, the last word of the structure.\<close>

definition uapi_main :: uapi where
  "uapi_main =
     libc_syscall SYS_reboot [Val 0xDEADBEEF, Val 0xCAFEBABE, Val 0, Ptr] (FdBuf 0) (\<lambda>_ b.
       let fd = fd_after b 0
       in if fd = 0 then Done Trapped
          else ioctl fd KSU_IOCTL_GET_INFO (InfoBuf (replicate 16 0)) (\<lambda>r b.
            let info = image_after b (replicate 16 0)
            in if (ucast r :: cint) \<noteq> 0 then
                 libc_syscall SYS_ioctl [Val KSU_IOCTL_GET_INFO_LEGACY, Ptr] (InfoBuf info) (\<lambda>r b.
                   if (ucast r :: cint) \<noteq> 0 then Done Trapped
                   else Done (Exited (le_word32 (get_at 12 4 (image_after b info)))))
               else Done (Exited (le_word32 (get_at 12 4 info)))))"

section \<open>Layout\<close>

lemma align_up_simps [simp]:
  "align_up n (Suc 0) = n" "align_up 0 a = 0" if "0 < a" for a
  using that by (simp_all add: align_up_def)

text \<open>
  The sizes and offsets of \<open>struct app_profile\<close> on an LP64 target, as the kernel side of the
  interface has to agree on them: both members of the union start at byte 272 and the root
  profile's security domain at byte 704.
\<close>

theorem app_profile_layout:
  "csizeof app_profile_t = 784 \<and> csizeof rp_config_t = 512 \<and> csizeof root_profile_t = 248 \<and>
   map (offset_of app_profile_t)
     [[''version''], [''key''], [''curr_uid''], [''allow_su''], path_rp [''use_default''],
      path_rp [''template_name''], path_rp [''profile'', ''uid''], path_rp [''profile'', ''gid''],
      path_rp [''profile'', ''selinux_domain''], path_rp [''profile'', ''flags''],
      path_nrp [], path_nrp [''use_default''], path_nrp [''profile'', ''umount_modules'']] =
   map Some [0, 4, 260, 264, 272, 273, 536, 540, 704, 776, 272, 272, 273]"
  by (simp add: app_profile_types member_def align_up_def)

lemma profile_offs [image_simps]:
  "profile_off [''version''] = 0" "profile_off [''key''] = 4" "profile_off [''curr_uid''] = 260"
  "profile_off [''allow_su''] = 264" "profile_off (path_rp [''use_default'']) = 272"
  "profile_off (path_nrp [''use_default'']) = 272" "profile_off (path_nrp []) = 272"
  "profile_off (path_nrp [''profile'', ''umount_modules'']) = 273"
  "profile_off (path_rp [''profile'', ''selinux_domain'']) = 704"
  "csizeof app_profile_t = 784" "csizeof rp_config_t = 512"
  by (simp_all add: profile_off_def app_profile_types member_def align_up_def)

lemma nth_put_at_if [image_simps]:
  "off + length bs \<le> length img \<Longrightarrow> i < length img \<Longrightarrow>
     put_at off bs img ! i = (if off \<le> i \<and> i < off + length bs then bs ! (i - off) else img ! i)"
  by (rule nth_put_at)

lemmas profile_ops = stamp_def umount_image_def create_image_def root_image_def set_flag_def get_flag_def
  set_u32_def get_u32_def

lemma length_profile_ops [image_simps]:
  assumes "length img = 784"
  shows "length (stamp u img) = 784" "length (umount_image v img) = 784"
    "length (create_image u name img) = 784" "length (root_image v img) = 784"
  using assms by (simp_all add: profile_ops image_simps ksu_domain_def KSU_MAX_PACKAGE_NAME_def Let_def)

lemma length_zero_profile [image_simps]: "length zero_profile = 784"
  by (simp add: zero_profile_def image_simps)

section \<open>What the commands change in a profile\<close>

text \<open>
  Turning umount on or off clears \<open>use_default\<close> and stores the requested flag in the two
  bytes of the non-root configuration; no other byte of the profile changes.
\<close>

theorem umount_image_fields:
  assumes "length img = 784"
  shows "umount_image v img = take 272 img @ [0, if v then 1 else 0] @ drop 274 img"
proof (rule nth_equalityI)
  show "length (umount_image v img) = length (take 272 img @ [0, if v then 1 else 0] @ drop 274 img)"
    using assms by (simp add: image_simps)
  fix i
  assume "i < length (umount_image v img)"
  then have "i < 784" using assms by (simp add: image_simps)
  then show "umount_image v img ! i = (take 272 img @ [0, if v then 1 else 0] @ drop 274 img) ! i"
    using assms by (auto simp: umount_image_def set_flag_def image_simps nth_append nth_Cons')
qed

text \<open>
  C20: granting root sets \<open>allow_su\<close>, wipes the whole union (the 512 bytes of the root
  configuration), and leaves in it only \<open>use_default\<close> and the domain u:r:ksu:s0; revoking it
  clears \<open>allow_su\<close> and changes nothing else.
\<close>

theorem root_image_fields:
  assumes "length img = 784"
  shows "root_image True img = take 264 img @ [1] @ take 7 (drop 265 img) @ [1] @ replicate 431 0 @
      map char_byte ''u:r:ksu:s0'' @ replicate 70 0 \<and>
    root_image False img = img[264 := 0]"
proof
  define d where "d = map char_byte ksu_domain @ [0]"
  have d: "length d = 11" by (simp add: d_def ksu_domain_def)
  have "map char_byte ''u:r:ksu:s0'' @ replicate 70 0 = d @ replicate 69 0"
    by (simp add: d_def ksu_domain_def eval_nat_numeral)
  moreover have "root_image True img =
      take 264 img @ [1] @ take 7 (drop 265 img) @ [1] @ replicate 431 0 @ d @ replicate 69 0" (is "_ = ?img")
  proof (rule nth_equalityI)
    show "length (root_image True img) = length ?img"
      using assms d by (simp add: image_simps)
    fix i
    assume "i < length (root_image True img)"
    then have "i < 784" using assms by (simp add: image_simps)
    then show "root_image True img ! i = ?img ! i"
      using assms d
      by (auto simp: root_image_def set_flag_def get_flag_def image_simps nth_append Let_def simp flip: d_def)
  qed
  ultimately show "root_image True img = take 264 img @ [1] @ take 7 (drop 265 img) @ [1] @ replicate 431 0 @
      map char_byte ''u:r:ksu:s0'' @ replicate 70 0"
    by simp
  show "root_image False img = img[264 := 0]"
    using assms by (simp add: root_image_def set_flag_def get_flag_def image_simps Let_def)
      (simp add: put_at_def upd_conv_take_nth_drop)
qed

lemma char_byte_unat [simp]: "unat (char_byte c) = of_char c"
  using of_char_mod_256 [of c, where 'a = nat] by (simp add: char_byte_def unat_of_nat take_bit_eq_mod)

lemma byte_char_byte [simp]: "byte_char (char_byte c) = c"
  by (simp add: byte_char_def)

lemma char_byte_zero: "char_byte c = 0 \<longleftrightarrow> c = char_of (0 :: nat)"
proof
  assume "char_byte c = 0"
  then have "byte_char (char_byte c) = char_of (0 :: nat)" by (simp add: byte_char_def del: byte_char_byte)
  then show "c = char_of (0 :: nat)" by simp
qed (simp add: char_byte_def)

lemma cstring_key:
  assumes "get_at 4 256 img = strncpy_bytes name 255 @ [0]" and "char_of (0 :: nat) \<notin> set name"
  shows "cstring_at 4 img = take 255 name"
proof -
  have "drop 4 img = get_at 4 256 img @ drop 260 img"
    using append_take_drop_id [of 256 "drop 4 img"] by (simp add: get_at_def)
  moreover have "takeWhile (\<lambda>b. b \<noteq> 0) (map char_byte (take 255 name) @ rest) =
      map char_byte (take 255 name) @ takeWhile (\<lambda>b. b \<noteq> 0) rest" for rest
    using assms(2) by (subst takeWhile_append2) (auto simp: char_byte_zero dest: in_set_takeD)
  ultimately show ?thesis
    using assms(1)
    by (cases "255 - length (take 255 name)") (simp_all add: cstring_at_def strncpy_bytes_def Let_def comp_def)
qed

text \<open>
  C21: the profile sent by \<open>--create\<close> has version 4, the requested uid, at most 255 characters of
  the package name followed by a terminator, no root, \<open>use_default\<close> set and umount off, and every
  other byte zero.
\<close>

theorem create_image_fields:
  assumes "char_of (0 :: nat) \<notin> set name"
  shows "create_image u name zero_profile =
      le_bytes 4 @ strncpy_bytes name 255 @ [0] @ le_bytes u @ replicate 8 0 @ [1] @ replicate 511 0 \<and>
    profile_key (create_image u name zero_profile) = take 255 name"
proof
  let ?img = "le_bytes 4 @ strncpy_bytes name 255 @ [0] @ le_bytes u @ replicate 8 0 @ [1] @ replicate 511 0"
  show img: "create_image u name zero_profile = ?img"
  proof (rule nth_equalityI)
    show "length (create_image u name zero_profile) = length ?img" by (simp add: image_simps)
    fix i
    assume "i < length (create_image u name zero_profile)"
    then have "i < 784" by (simp add: image_simps)
    moreover have "zero_profile ! i = 0" if "i < 784" for i
      using that by (simp add: zero_profile_def image_simps)
    ultimately show "create_image u name zero_profile ! i = ?img ! i"
      by (auto simp: create_image_def stamp_def set_u32_def set_flag_def image_simps nth_append Let_def
          KSU_MAX_PACKAGE_NAME_def KSU_APP_PROFILE_VER_def nth_Cons')
  qed
  have "get_at 4 256 ?img = strncpy_bytes name 255 @ [0]"
    by (simp add: get_at_def image_simps)
  then show "profile_key (create_image u name zero_profile) = take 255 name"
    using cstring_key assms by (simp add: img profile_key_def image_simps)
qed

section \<open>The protocol of a run\<close>

text \<open>
  How far a run has come: root, the driver's descriptor, the manager's uid, acting as the manager,
  the profile loaded from the kernel.
\<close>

datatype phase = Start | Rooted | HaveFd cint | OldDriver | Known cint | Manager cint u32
  | Acting cint | Loaded cint image | Finished

text \<open>The one profile a command may store: a new one, or a change of the loaded one.\<close>

definition may_store :: "string list \<Rightarrow> image option \<Rightarrow> image \<Rightarrow> bool" where
  "may_store argv loaded img =
     (case loaded of
        None \<Rightarrow> argv ! 1 = ''--create'' \<and> img = create_image (atoi (argv ! 2)) (argv ! 3) zero_profile
      | Some l \<Rightarrow>
          argv ! 1 = ''--setumount'' \<and> \<not> get_flag [''allow_su''] l \<and> img = umount_image (first_char (argv ! 3) = 49) l \<or>
          argv ! 1 = ''--setroot'' \<and> img = root_image (first_char (argv ! 3) = 49) l)"

definition is_ioctl :: "cint \<Rightarrow> clong \<Rightarrow> uapi_buf req \<Rightarrow> bool" where
  "is_ioctl fd cmd q \<longleftrightarrow> req_no q = SYS_ioctl \<and> req_args q = [Val (scast fd), Val cmd, Ptr]"

definition may_set :: "string list \<Rightarrow> cint \<Rightarrow> image option \<Rightarrow> uapi_buf req \<Rightarrow> bool" where
  "may_set argv fd loaded q \<longleftrightarrow>
     is_ioctl fd KSU_IOCTL_SET_APP_PROFILE q \<and>
     (case req_buf q of ProfileBuf img \<Rightarrow> may_store argv loaded img | _ \<Rightarrow> False)"

fun profile_protocol :: "string list \<Rightarrow> (phase, uapi_buf) protocol" where
  "profile_protocol argv Start q (r, b) =
     (if q = Req SYS_getuid [] NoBuf then Some (if r = 0 then Rooted else Finished) else None)"
| "profile_protocol argv Rooted q (r, b) =
     (if q = Req SYS_reboot [Val 0xDEADBEEF, Val 0xCAFEBABE, Val 0, Ptr] (FdBuf 0)
      then Some (if fd_after b 0 = 0 then Finished else HaveFd (fd_after b 0)) else None)"
| "profile_protocol argv (HaveFd fd) q (r, b) =
     (if is_ioctl fd KSU_IOCTL_GET_INFO q
      then Some (if (ucast (libc_result r) :: cint) = 0 then Known fd else OldDriver) else None)"
| "profile_protocol argv OldDriver q (r, b) =
     (if req_no q = SYS_ioctl \<and> req_args q = [Val KSU_IOCTL_GET_INFO_LEGACY, Ptr] then Some Finished else None)"
| "profile_protocol argv (Known fd) q (r, b) =
     (if is_ioctl fd KSU_IOCTL_GET_MANAGER_UID q then
        (case req_buf q of
           UidBuf c \<Rightarrow>
             Some (if (ucast (libc_result r) :: cint) = 0 \<and> uid_after b c \<noteq> 0 then Manager fd (uid_after b c) else Finished)
         | _ \<Rightarrow> None)
      else None)"
| "profile_protocol argv (Manager fd uid) q (r, b) =
     (if q = Req SYS_setuid [Val (ucast uid)] NoBuf \<and> \<not> atoi (argv ! 2) <s 10000
      then Some (if r = 0 then Acting fd else Finished) else None)"
| "profile_protocol argv (Acting fd) q (r, b) =
     (if may_set argv fd None q then Some Finished
      else if is_ioctl fd KSU_IOCTL_GET_APP_PROFILE q \<and> req_buf q = ProfileBuf (stamp (atoi (argv ! 2)) zero_profile) then
        (let img = image_after b (stamp (atoi (argv ! 2)) zero_profile)
         in Some (if r = 0 \<and> \<not> key_empty img then Loaded fd img else Finished))
      else None)"
| "profile_protocol argv (Loaded fd img) q (r, b) =
     (if may_set argv fd (Some img) q then Some Finished else None)"
| "profile_protocol argv Finished q (r, b) = None"

lemma conforms_err [simp]: "conforms spec (err t) s"
  by (simp add: err_def)

lemma conforms_put_lines [simp]: "conforms spec (put_lines ls p) s \<longleftrightarrow> conforms spec p s"
  by (induction ls) (simp_all add: put_lines_def)

lemma conforms_as_manager:
  assumes "\<And>req_uid. \<not> atoi (argv ! 2) <s 10000 \<Longrightarrow> conforms (profile_protocol argv) (k (atoi (argv ! 2))) (Acting fd)"
  shows "conforms (profile_protocol argv) (as_manager fd cmd0 (argv ! 2) nopkg usage k) (Known fd)"
  using assms by (auto simp: as_manager_def ioctl_def is_ioctl_def Let_def)

lemma conforms_get_profile:
  assumes "\<And>img. conforms (profile_protocol argv) (k img) (Loaded fd img)"
  shows "conforms (profile_protocol argv) (get_profile fd (stamp (atoi (argv ! 2)) zero_profile) k) (Acting fd)"
  using assms
  by (auto simp: get_profile_def ioctl_def is_ioctl_def may_set_def Let_def KSU_IOCTL_SET_APP_PROFILE_def
      KSU_IOCTL_GET_APP_PROFILE_def IOC_def)

lemma conforms_set_profile:
  assumes "may_store argv (case ph of Loaded fd img \<Rightarrow> Some img | _ \<Rightarrow> None) img'"
    and "ph = Acting fd \<or> (\<exists>img. ph = Loaded fd img)"
    and "\<And>img. conforms (profile_protocol argv) (k img) Finished"
  shows "conforms (profile_protocol argv) (set_profile fd img' failed k) ph"
  using assms by (auto simp: set_profile_def ioctl_def is_ioctl_def may_set_def)

lemma profile_main_conforms: "conforms (profile_protocol argv) (profile_main stale argv) Start"
proof -
  have "conforms (profile_protocol argv) (dispatch stale fd argv) (Known fd)" for fd
    unfolding dispatch_def getuidinfo_def setumount_def create_profile_def set_root_def
    by (auto split: arg_read.splits
        intro!: conforms_as_manager conforms_get_profile conforms_set_profile
        simp: may_store_def argv_at_def split: if_splits)
  then show "conforms (profile_protocol argv) (profile_main stale argv) Start"
    by (auto simp: profile_main_def ioctl_def is_ioctl_def Let_def KSU_INSTALL_MAGIC1_def KSU_INSTALL_MAGIC2_def)
qed

text \<open>
  C1: whatever the kernel answers, a run of the profile tool follows the protocol: nothing is read
  or stored before root, the driver, the manager's uid, a requested uid of at least 10000 and a
  successful \<open>setuid\<close> to the manager, in this order; at most one profile is stored, as the last
  call, and it is exactly the new one of \<open>--create\<close> or the change of the loaded one that
  \<open>--setumount\<close> (never for a root app) or \<open>--setroot\<close> stands for.
\<close>

theorem profile_main_follows_protocol:
  "accepted (profile_protocol argv) Start (trace_of K (profile_main stale argv) k)"
  by (rule conforms_accepted [OF profile_main_conforms])

section \<open>Runs with a working driver\<close>

text \<open>The answers up to the point where the tool acts as the manager.\<close>

definition login :: "cint \<Rightarrow> u32 \<Rightarrow> uapi_buf reply list" where
  "login fd uid = [(0, NoBuf), (-22, FdBuf fd), (0, InfoBuf (replicate 16 1)), (0, UidBuf uid), (0, NoBuf)]"

lemma libc_result_nonneg [simp]: "libc_result 0 = 0"
  by (simp add: libc_result_def syscall_gate_errno_def)

lemma image_after_profile [simp]: "length img = length old \<Longrightarrow> image_after (ProfileBuf img) old = img"
  by (simp add: image_after_def)

lemma first_char_one: "first_char flag = 49 \<longleftrightarrow> take 1 flag = ''1''"
proof -
  have "(of_char c :: nat) = 49 \<longleftrightarrow> c = CHR ''1''" for c
    using of_char_eq_iff [of c "CHR ''1''", where 'a = nat] by simp
  then show ?thesis by (cases flag) (auto simp: first_char_def)
qed

lemma length_stamp_zero: "length (stamp u zero_profile) = 784"
  by (simp add: image_simps)

lemmas command_defs = profile_main_def ioctl_def dispatch_def setumount_def create_profile_def set_root_def
  getuidinfo_def as_manager_def get_profile_def set_profile_def login_def

text \<open>
  with a driver that answers, \<open>--setroot UID 1\<close> ends with status 0 after storing the loaded
  profile with root granted, and \<open>--setroot UID\<close> with any other flag after storing it with root
  revoked.
\<close>

theorem set_root_stores:
  assumes "fd \<noteq> 0" and "uid \<noteq> 0" and "\<not> atoi u <s 10000" and "length img = 784" and "img ! 4 \<noteq> 0"
  shows "let (out, tr) = run script (profile_main stale [a, ''--setroot'', u, flag])
            (login fd uid @ [(0, ProfileBuf img), (0, ProfileBuf img)])
         in out = Exited 0 \<and> length tr = 8 \<and>
            tr ! 6 = Called (Req SYS_ioctl [Val (scast fd), Val KSU_IOCTL_SET_APP_PROFILE, Ptr]
              (ProfileBuf (root_image (take 1 flag = ''1'') img))) (0, ProfileBuf img)"
proof -
  show ?thesis
    using assms length_stamp_zero first_char_one [of flag]
    by (simp add: command_defs argv_at_def Let_def fd_after_def uid_after_def key_empty_def image_simps)
qed

lemma set_root_stores_witness:
  "let img = [4, 0, 0, 0, 97] @ replicate 779 0
   in fst (run script (profile_main 7 [''profile'', ''--setroot'', ''10123'', ''1''])
            (login 3 1000 @ [(0, ProfileBuf img), (0, ProfileBuf img)])) = Exited 0"
proof -
  let ?img = "[4, 0, 0, 0, 97] @ replicate 779 0 :: u8 list"
  have "\<not> atoi ''10123'' <s 10000"
    by (simp add: atoi_def strtol10_def is_space_def is_digit_def horner_def word_sless_alt Let_def)
  then show ?thesis
    using set_root_stores [of 3 1000 "''10123''" ?img 7 "''profile''" "''1''"]
    by (simp add: Let_def case_prod_unfold)
qed

text \<open>
  C27: \<open>--setumount UID FLAG\<close> on an app without root stores umount on exactly when FLAG starts
  with the character 1, while the success message reports whether FLAG is a nonzero number; the
  two disagree for flags such as 2 or 01.
\<close>

theorem setumount_stores_and_reports:
  assumes "fd \<noteq> 0" and "uid \<noteq> 0" and "\<not> atoi u <s 10000" and "length img = 784" and "img ! 4 \<noteq> 0" and "img ! 264 = 0"
  shows "let (out, tr) = run script (profile_main stale [a, ''--setumount'', u, flag])
            (login fd uid @ [(0, ProfileBuf img), (0, ProfileBuf img)])
         in out = Exited 0 \<and> drop 6 tr =
            [Called (Req SYS_ioctl [Val (scast fd), Val KSU_IOCTL_SET_APP_PROFILE, Ptr]
               (ProfileBuf (umount_image (take 1 flag = ''1'') img))) (0, ProfileBuf img),
             Printed (''Success: umount set to '' @ (if atoi flag = 0 then ''0'' else ''1'') @
               '' app with uid: '' @ fmt_d (atoi u) @ '' '' @ newline)]"
proof -
  have "fmt_d 0 = ''0''" "fmt_d 1 = ''1''"
    by (simp_all add: fmt_d_def show_base_def digits.simps [of 10] digit_char_def)
  then show ?thesis
    using assms length_stamp_zero first_char_one [of flag]
    by (simp add: command_defs argv_at_def Let_def fd_after_def uid_after_def key_empty_def get_flag_def image_simps)
qed

lemma setumount_stores_and_reports_witness:
  "let img = [4, 0, 0, 0, 97] @ replicate 779 0
   in drop 6 (snd (run script (profile_main 7 [''profile'', ''--setumount'', ''10123'', ''2''])
            (login 3 1000 @ [(0, ProfileBuf img), (0, ProfileBuf img)]))) =
      [Called (Req SYS_ioctl [Val 3, Val KSU_IOCTL_SET_APP_PROFILE, Ptr]
         (ProfileBuf (umount_image False img))) (0, ProfileBuf img),
       Printed (''Success: umount set to 1 app with uid: 10123 '' @ newline)]"
proof -
  let ?img = "[4, 0, 0, 0, 97] @ replicate 779 0 :: u8 list"
  have "\<not> atoi ''10123'' <s 10000" "atoi ''2'' \<noteq> 0" "fmt_d (atoi ''10123'') = ''10123''"
    by (simp_all add: atoi_def strtol10_def is_space_def is_digit_def horner_def word_sless_alt Let_def
        fmt_d_def show_base_def digits.simps [of 10] digit_char_def)
  then show ?thesis
    using setumount_stores_and_reports [of 3 1000 "''10123''" ?img 7 "''profile''" "''2''"]
    by (simp add: Let_def case_prod_unfold)
qed

text \<open>A kernel that answers with given statuses and fills in nothing but the descriptor.\<close>

fun fills_nothing :: "cint \<Rightarrow> (clong list, uapi_buf) kernel" where
  "fills_nothing fd [] q = ((- 38, req_buf q), [])"
| "fills_nothing fd (r # rs) q = ((r, if req_no q = SYS_reboot then FdBuf fd else req_buf q), rs)"

text \<open>
  C40: the structure \<open>cmd\<close> is initialised only for \<open>--getuidinfo\<close>. When the driver reports success
  without filling it in, the other three commands take the uid left in its storage for the manager
  and try to become that user, while \<open>--getuidinfo\<close> reports that no manager is installed.
\<close>

theorem manager_uid_uninitialised:
  assumes "fd \<noteq> 0" and "stale \<noteq> 0" and "\<not> atoi u <s 10000"
    and "cmd \<in> {''--setumount'', ''--create'', ''--setroot''}"
  shows "(\<exists>tr. run (fills_nothing fd) (profile_main stale [a, cmd, u, x]) [0, - 22, 0, 0, - 1] = (Exited 1, tr) \<and>
      tr ! 4 = Called (Req SYS_setuid [Val (ucast stale)] NoBuf) (- 1, NoBuf)) \<and>
    (\<exists>tr. run (fills_nothing fd) (profile_main stale [a, ''--getuidinfo'', u]) [0, - 22, 0, 0, - 1] = (Exited 1, tr) \<and>
      length tr = 5 \<and> tr ! 4 = Printed (''Error: Manager not installed!'' @ newline))"
proof
  have r: "libc_result (- 1) = - 1" by (simp add: libc_result_def syscall_gate_errno_def)
  then show "\<exists>tr. run (fills_nothing fd) (profile_main stale [a, cmd, u, x]) [0, - 22, 0, 0, - 1] = (Exited 1, tr) \<and>
      tr ! 4 = Called (Req SYS_setuid [Val (ucast stale)] NoBuf) (- 1, NoBuf)"
    using assms by (auto simp: command_defs err_def argv_at_def Let_def fd_after_def uid_after_def)
  show "\<exists>tr. run (fills_nothing fd) (profile_main stale [a, ''--getuidinfo'', u]) [0, - 22, 0, 0, - 1] = (Exited 1, tr) \<and>
      length tr = 5 \<and> tr ! 4 = Printed (''Error: Manager not installed!'' @ newline)"
    using assms by (simp add: command_defs err_def argv_at_def Let_def fd_after_def uid_after_def)
qed

lemma manager_uid_uninitialised_witness:
  "fst (run (fills_nothing 3) (profile_main 77 [''profile'', ''--setroot'', ''10123'', ''1'']) [0, - 22, 0, 0, - 1]) = Exited 1"
proof -
  have "\<not> atoi ''10123'' <s 10000"
    by (simp add: atoi_def strtol10_def is_space_def is_digit_def horner_def word_sless_alt Let_def)
  then show ?thesis
    using manager_uid_uninitialised [of 3 77 "''10123''" "''--setroot''" "''profile''" "''1''"] by auto
qed

text \<open>
  \<open>uapi.c\<close> exits with the last word of the structure the driver filled in; when the new request
  fails it repeats it with the legacy number in place of the descriptor and traps on a second
  failure.
\<close>

theorem uapi_main_status:
  assumes "fd \<noteq> 0" and "length info = 16"
  shows "fst (run script uapi_main [(r, FdBuf fd), (0, InfoBuf info)]) = Exited (le_word32 (drop 12 info)) \<and>
    run script uapi_main [(r, FdBuf fd), (- 25, InfoBuf info), (- 9, InfoBuf info)] =
      (Trapped, [Called (Req SYS_reboot [Val 0xDEADBEEF, Val 0xCAFEBABE, Val 0, Ptr] (FdBuf 0)) (r, FdBuf fd),
        Called (Req SYS_ioctl [Val (scast fd), Val KSU_IOCTL_GET_INFO, Ptr] (InfoBuf (replicate 16 0))) (- 25, InfoBuf info),
        Called (Req SYS_ioctl [Val KSU_IOCTL_GET_INFO_LEGACY, Ptr] (InfoBuf info)) (- 9, InfoBuf info)])"
proof -
  have "libc_result (- 25) = - 1" "libc_result (- 9) = - 1"
    by (simp_all add: libc_result_def syscall_gate_errno_def word_sless_alt word_sle_eq)
  moreover have "(ucast (- 1 :: clong) :: cint) = - 1"
    by (rule bit_word_eqI) (simp add: bit_simps)
  ultimately show ?thesis
    using assms by (simp add: uapi_main_def ioctl_def Let_def fd_after_def image_after_def get_at_def)
qed

lemma uapi_main_status_witness:
  "fst (run script uapi_main [(- 22, FdBuf 3), (0, InfoBuf (replicate 12 0 @ [2, 1, 0, 0]))]) = Exited 258"
  using uapi_main_status [of 3 "replicate 12 0 @ [2, 1, 0, 0]" "- 22"] by (simp add: le_word32_def)

lemma umount_image_fields_witness:
  "umount_image True zero_profile = take 272 zero_profile @ [0, 1] @ drop 274 zero_profile"
  using umount_image_fields [of zero_profile True] by (simp add: length_zero_profile)

lemma root_image_fields_witness: "root_image False zero_profile = zero_profile[264 := 0]"
  using root_image_fields [of zero_profile] by (simp add: length_zero_profile)

lemma create_image_fields_witness:
  "profile_key (create_image 10123 ''com.app'' zero_profile) = ''com.app''"
proof -
  have "char_of (0 :: nat) \<notin> set ''com.app''" by (simp add: char_of_def)
  from create_image_fields [OF this, THEN conjunct2] show ?thesis by simp
qed

end
