(* ===== verification/StartDemos.thy ===== *)
theory StartDemos
  imports AppProfile
begin

text \<open>
  The freestanding demonstration programs: \<open>hello_world/hello.c\<close> and \<open>hello2.c\<close>,
  \<open>small_start/small_start.c\<close>, \<open>small_start_tests/small_start.c\<close>, the preinit demo
  \<open>kernelsu/ksu_preinit_demo/src/hello3.c\<close>, and the umount list reader
  \<open>small_start_tests/grab_umount_list.c\<close>. Every one writes with the raw \<open>write\<close> call; what they
  print is the concatenation of the written buffers.
\<close>

section \<open>Writing\<close>

definition write_str :: "clong \<Rightarrow> string \<Rightarrow> uapi \<Rightarrow> uapi" where
  "write_str fd text k = sys SYS_write [Val fd, Ptr, Val (of_nat (length text))] (TextBuf text) (\<lambda>_ _. k)"

text \<open>A string constant with its terminator, as \<open>sizeof\<close> counts it.\<close>

definition with_nul :: "string \<Rightarrow> string" where
  "with_nul s = s @ [char_of (0 :: nat)]"

definition sys_exit :: "cint \<Rightarrow> uapi" where
  "sys_exit code = Done (Exited code)"

fun texts :: "uapi_buf event list \<Rightarrow> string" where
  "texts [] = []"
| "texts (Called (Req SYS_write as (TextBuf t)) r # tr) = t @ texts tr"
| "texts (e # tr) = texts tr"

text \<open>\<open>prints K p out t\<close>: from every kernel state the program ends with \<open>out\<close> having written \<open>t\<close>.\<close>

definition prints :: "('k, uapi_buf) kernel \<Rightarrow> uapi \<Rightarrow> outcome \<Rightarrow> string \<Rightarrow> bool" where
  "prints K p out t \<longleftrightarrow> (\<forall>k. outcome_of K p k = out \<and> texts (trace_of K p k) = t)"

named_theorems prints_intros

lemma prints_Done [prints_intros]: "prints K (Done out) out []"
  by (simp add: prints_def outcome_of_def trace_of_def)

lemma prints_exit [prints_intros]: "prints K (sys_exit c) (Exited c) []"
  by (simp add: sys_exit_def prints_Done)

lemma prints_write [prints_intros]: "prints K p out t \<Longrightarrow> prints K (write_str fd s p) out (s @ t)"
  by (simp add: prints_def write_str_def outcome_of_def trace_of_def split: prod.splits)

lemma printsD: "prints K p out t \<Longrightarrow> outcome_of K p k = out \<and> texts (trace_of K p k) = t"
  by (simp add: prints_def)

section \<open>Hello programs\<close>

definition hello_main :: uapi where
  "hello_main = write_str 1 (with_nul (''Hello world!'' @ newline)) (sys_exit 0)"

text \<open>\<open>AT_FDCWD\<close> is -100, \<open>O_WRONLY\<close> 1.\<close>

definition hello2_main :: uapi where
  "hello2_main =
     sys SYS_openat [Val (- 100), Ptr, Val 1] (TextBuf ''/dev/kmsg'') (\<lambda>fd _.
       if 0 \<le>s fd then write_str fd (''TESTING: hello from security_sb_mount'' @ newline) (sys_exit 0)
       else sys_exit 0)"

fun write_all :: "clong \<Rightarrow> string list \<Rightarrow> uapi \<Rightarrow> uapi" where
  "write_all fd [] k = k"
| "write_all fd (s # ss) k = write_str fd s (write_all fd ss k)"

definition hello3_msg :: string where "hello3_msg = ''ksu_preinit_demo: Hello world!'' @ newline"
definition hello3_msg2 :: string where "hello3_msg2 = ''ksu_preinit_demo: print shit on dmesg!'' @ newline"

definition hello3_main :: "string list \<Rightarrow> string list \<Rightarrow> uapi" where
  "hello3_main argv envp =
     sys SYS_openat [Val (- 100), Ptr, Val 1] (TextBuf ''/dev/kmsg'') (\<lambda>r _.
       let fd = ucast r :: cint
       in if \<not> 0 \<le>s fd then sys_exit 0
          else write_str (scast fd) (with_nul hello3_msg)
                 (write_all (scast fd) argv (write_all (scast fd) envp
                   (write_str (scast fd) (with_nul hello3_msg2) (sys_exit 0)))))"

section \<open>Argument demos\<close>

text \<open>
  The loop of \<open>small_start.c\<close>: it prints an entry before it tests for the end, so a vector without
  entries is dereferenced through its null pointer.
\<close>

fun line_loop :: "string list \<Rightarrow> uapi \<Rightarrow> uapi" where
  "line_loop [] k = Done Faulted"
| "line_loop (s # ss) k = write_str 1 s (write_str 1 newline (if ss \<noteq> [] then line_loop ss k else k))"

definition small_start_main :: "string list \<Rightarrow> string list \<Rightarrow> uapi" where
  "small_start_main argv envp = line_loop argv (line_loop envp (sys_exit 0))"

text \<open>The earlier version looks at the first ten arguments and returns 1.\<close>

function first_loop :: "nat \<Rightarrow> string list \<Rightarrow> uapi" where
  "first_loop i argv =
     (let k = (if i + 1 < 10 then first_loop (i + 1) argv else sys_exit 1)
      in if length argv > i then write_str 1 (argv ! i) (write_str 1 newline k) else k)"
  by pat_completeness auto

termination by (relation "measure (\<lambda>(i, _). 10 - i)") auto

declare first_loop.simps [simp del]

definition first_start_main :: "string list \<Rightarrow> uapi" where
  "first_start_main argv = first_loop 0 argv"

section \<open>The umount list\<close>

definition KSU_IOCTL_ADD_TRY_UMOUNT :: clong where
  "KSU_IOCTL_ADD_TRY_UMOUNT = IOC 1 CHR ''K'' 18 0"

definition KSU_UMOUNT_GETSIZE :: u8 where "KSU_UMOUNT_GETSIZE = 107"
definition KSU_UMOUNT_GETLIST :: u8 where "KSU_UMOUNT_GETLIST = 108"

definition umount_bytes :: "uapi_buf \<Rightarrow> image \<Rightarrow> image" where
  "umount_bytes b old = (case b of UmountBuf _ _ img \<Rightarrow> if length img = length old then img else old | _ \<Rightarrow> old)"

definition le_nat :: "u8 list \<Rightarrow> nat" where
  "le_nat bs = foldr (\<lambda>b a. unat b + 256 * a) bs 0"

text \<open>
  The pointer walk, on the bytes from \<open>char_buf\<close> to the end of the buffer. A string without
  terminator and the test of a byte behind the buffer are accesses outside it.
\<close>

function walk :: "u8 list \<Rightarrow> uapi" where
  "walk buf =
     (if 0 \<notin> set buf then Done Faulted
      else
        (let s = takeWhile (\<lambda>b. b \<noteq> 0) buf;
             rest = drop (length s + 1) buf
         in write_str 1 (map byte_char s) (write_str 1 newline
              (case rest of
                 [] \<Rightarrow> Done Faulted
               | c # _ \<Rightarrow> if c \<noteq> 0 then walk rest else sys_exit 0))))"
  by pat_completeness auto

termination
  by (relation "measure length") (auto dest: arg_cong [where f = length])

declare walk.simps [simp del]

definition umount_ioctl :: "cint \<Rightarrow> u8 \<Rightarrow> image \<Rightarrow> (image \<Rightarrow> uapi) \<Rightarrow> uapi" where
  "umount_ioctl fd mode obj k =
     sys SYS_ioctl [Val (scast fd), Val KSU_IOCTL_ADD_TRY_UMOUNT, Ptr] (UmountBuf 0 mode obj) (\<lambda>r b.
       let ret = ucast r :: cint
       in if ret <s 0 then sys_exit 1 else k (umount_bytes b obj))"

text \<open>\<open>alloca\<close> never returns a null pointer.\<close>

definition grab_umount_main :: uapi where
  "grab_umount_main =
     sys SYS_reboot [Val KSU_INSTALL_MAGIC1, Val KSU_INSTALL_MAGIC2, Val 0, Ptr] (FdBuf 0) (\<lambda>_ b.
       let fd = fd_after b 0
       in if fd = 0 then sys_exit 1
          else umount_ioctl fd KSU_UMOUNT_GETSIZE (replicate 8 0) (\<lambda>sz.
            let total_size = le_nat sz
            in if total_size = 0 then sys_exit 1
               else umount_ioctl fd KSU_UMOUNT_GETLIST (replicate total_size 0) walk))"

section \<open>What the demos print\<close>

definition line_of :: "string \<Rightarrow> string" where
  "line_of s = s @ newline"

lemma concat_lines: "concat (map line_of (s # ss)) = s @ newline @ concat (map line_of ss)"
  by (simp add: line_of_def)

lemma prints_line_loop:
  assumes "prints K k out t" and "ss \<noteq> []"
  shows "prints K (line_loop ss k) out (concat (map line_of ss) @ t)"
  using assms(2)
proof (induction ss)
  case (Cons s ss)
  then have "prints K (if ss \<noteq> [] then line_loop ss k else k) out (concat (map line_of ss) @ t)"
    using assms(1) by (cases "ss = []") simp_all
  then have "prints K (line_loop (s # ss) k) out (s @ newline @ concat (map line_of ss) @ t)"
    unfolding line_loop.simps by (intro prints_write)
  moreover have "concat (map line_of (s # ss)) @ t = s @ newline @ concat (map line_of ss) @ t"
    by (simp add: line_of_def)
  ultimately show ?case by (simp only:)
qed simp

text \<open>
  On every kernel \<open>small_start\<close> prints each argument and then each environment string on a line
  of its own and returns 0, provided there is at least one of each; without arguments it
  dereferences a null pointer at once, without environment after the arguments.
\<close>

theorem small_start_prints:
  "outcome_of K (small_start_main argv envp) k = (if argv = [] \<or> envp = [] then Faulted else Exited 0) \<and>
   texts (trace_of K (small_start_main argv envp) k) =
     (if argv = [] then [] else concat (map line_of argv) @ concat (map line_of envp))"
proof -
  have fault: "prints K (line_loop [] p) Faulted []" for p
    by (simp add: prints_Done)
  have env: "prints K (line_loop envp (sys_exit 0)) (if envp = [] then Faulted else Exited 0) (concat (map line_of envp))"
    using prints_line_loop [OF prints_exit, of envp K 0] fault by (cases "envp = []") simp_all
  show ?thesis
  proof (cases "argv = []")
    case True
    then show ?thesis using printsD [OF fault] by (simp add: small_start_main_def)
  next
    case False
    from printsD [OF prints_line_loop [OF env this]] False show ?thesis
      by (simp add: small_start_main_def)
  qed
qed

lemma prints_first_loop:
  "prints K (first_loop i argv) (Exited 1) (concat (map line_of (take (10 - i) (drop i argv))))" if "i < 10"
  using that
proof (induction i argv rule: first_loop.induct)
  case (1 i argv)
  let ?k = "if i + 1 < 10 then first_loop (i + 1) argv else sys_exit 1"
  have k: "prints K ?k (Exited 1) (concat (map line_of (take (10 - Suc i) (drop (Suc i) argv))))"
  proof (cases "i + 1 < 10")
    case True
    with 1 show ?thesis by simp
  next
    case False
    with 1(2) have "i = 9" by simp
    then show ?thesis by (simp add: prints_exit)
  qed
  show ?case
  proof (cases "i < length argv")
    case True
    have "10 - i = Suc (10 - Suc i)" using 1(2) by simp
    then have "take (10 - i) (drop i argv) = argv ! i # take (10 - Suc i) (drop (Suc i) argv)"
      using True by (simp only: take_Suc_Cons flip: Cons_nth_drop_Suc)
    moreover have "prints K (first_loop i argv) (Exited 1)
        (argv ! i @ newline @ concat (map line_of (take (10 - Suc i) (drop (Suc i) argv))))"
      using True by (subst first_loop.simps) (simp only: Let_def if_True, intro prints_write k)
    ultimately show ?thesis by (simp only: concat_lines)
  next
    case False
    then show ?thesis using k by (subst first_loop.simps) (simp add: Let_def)
  qed
qed

text \<open>
  The earlier demo prints its first ten arguments, one per line, never reads beyond the vector,
  and returns 1.
\<close>

theorem first_start_prints:
  "outcome_of K (first_start_main argv) k = Exited 1 \<and>
   texts (trace_of K (first_start_main argv) k) = concat (map line_of (take 10 argv))"
  using printsD [OF prints_first_loop [of 0]] by (simp add: first_start_main_def)

section \<open>The umount list as a string table\<close>

definition entry_bytes :: "string \<Rightarrow> u8 list" where
  "entry_bytes s = map char_byte s @ [0]"

lemma map_byte_char [simp]: "map byte_char (map char_byte s) = s"
  by (simp add: comp_def)

lemma walk_entry:
  assumes "char_of (0 :: nat) \<notin> set s"
  shows "walk (entry_bytes s @ rest) =
    write_str 1 s (write_str 1 newline
      (case rest of [] \<Rightarrow> Done Faulted | c # _ \<Rightarrow> if c \<noteq> 0 then walk rest else sys_exit 0))"
proof -
  have "takeWhile (\<lambda>b. b \<noteq> 0) (entry_bytes s @ rest) = map char_byte s"
    using assms unfolding entry_bytes_def append_assoc
    by (subst takeWhile_append2) (auto simp: char_byte_zero)
  moreover have "drop (length (map char_byte s) + 1) (entry_bytes s @ rest) = rest"
    by (simp add: entry_bytes_def)
  moreover have "0 \<in> set (entry_bytes s @ rest)" by (simp add: entry_bytes_def)
  ultimately show ?thesis
    by (subst walk.simps) (simp only: Let_def map_byte_char not_True_eq_False simp_thms if_False)
qed

lemma walk_entries:
  assumes "es \<noteq> []" and "\<And>s. s \<in> set es \<Longrightarrow> char_of (0 :: nat) \<notin> set s \<and> s \<noteq> []"
    and rest: "rest = [] \<or> hd rest = 0"
  shows "prints K (walk (concat (map entry_bytes es) @ rest)) (if rest = [] then Faulted else Exited 0)
    (concat (map line_of es))"
  using assms(1,2)
proof (induction es)
  case (Cons s es)
  then have s: "char_of (0 :: nat) \<notin> set s" by simp
  let ?out = "if rest = [] then Faulted else Exited 0"
  let ?rest = "concat (map entry_bytes es) @ rest"
  let ?next = "case ?rest of [] \<Rightarrow> Done Faulted | c # _ \<Rightarrow> if c \<noteq> 0 then walk ?rest else sys_exit 0"
  have "prints K ?next ?out (concat (map line_of es))"
  proof (cases es)
    case Nil
    then show ?thesis
      using rest by (cases rest) (simp_all add: prints_Done prints_exit)
  next
    case (Cons s' es')
    obtain c xs where "?rest = c # xs" "c \<noteq> 0"
      using Cons Cons.prems(2) [of s'] by (cases s') (auto simp: entry_bytes_def char_byte_zero)
    moreover have "prints K (walk ?rest) ?out (concat (map line_of es))"
      using Cons.IH Cons.prems Cons by simp
    ultimately show ?thesis by simp
  qed
  then have "prints K (walk (entry_bytes s @ ?rest)) ?out (s @ newline @ concat (map line_of es))"
    unfolding walk_entry [OF s] by (intro prints_write)
  moreover have "concat (map line_of (s # es)) = s @ newline @ concat (map line_of es)"
    by (simp add: line_of_def)
  moreover have "concat (map entry_bytes (s # es)) @ rest = entry_bytes s @ ?rest" by simp
  ultimately show ?case by (simp only:)
qed simp

text \<open>The replies of a driver that reports a size and then fills in the list.\<close>

definition umount_script :: "cint \<Rightarrow> image \<Rightarrow> image \<Rightarrow> uapi_buf reply list" where
  "umount_script fd sz buf = [(0, FdBuf fd), (0, UmountBuf 0 107 sz), (0, UmountBuf 0 108 buf)]"

text \<open>
  C29: when the driver's list is the nonempty entries followed by one more zero byte, the reader
  prints every entry on a line and returns 0; when the reported size counts only the entries with
  their own terminators, it has printed them all but reads the byte behind its buffer.
\<close>

theorem grab_umount_prints:
  assumes "es \<noteq> []" and "\<And>s. s \<in> set es \<Longrightarrow> char_of (0 :: nat) \<notin> set s \<and> s \<noteq> []"
    and "fd \<noteq> 0" and "buf = concat (map entry_bytes es) @ pad" and "pad = [] \<or> hd pad = 0"
    and "length sz = 8" and "le_nat sz = length buf"
  shows "outcome_of script grab_umount_main (umount_script fd sz buf) = (if pad = [] then Faulted else Exited 0) \<and>
    texts (trace_of script grab_umount_main (umount_script fd sz buf)) = concat (map line_of es)"
proof -
  have "buf \<noteq> []" using assms(1,4) by (cases es) (simp_all add: entry_bytes_def)
  then have "run script grab_umount_main (umount_script fd sz buf) =
      (case run script (walk buf) [] of (out, tr) \<Rightarrow> (out,
        Called (Req SYS_reboot [Val KSU_INSTALL_MAGIC1, Val KSU_INSTALL_MAGIC2, Val 0, Ptr] (FdBuf 0)) (0, FdBuf fd) #
        Called (Req SYS_ioctl [Val (scast fd), Val KSU_IOCTL_ADD_TRY_UMOUNT, Ptr] (UmountBuf 0 107 (replicate 8 0))) (0, UmountBuf 0 107 sz) #
        Called (Req SYS_ioctl [Val (scast fd), Val KSU_IOCTL_ADD_TRY_UMOUNT, Ptr] (UmountBuf 0 108 (replicate (length buf) 0))) (0, UmountBuf 0 108 buf) # tr))"
    using assms(3,6,7)
    by (simp add: grab_umount_main_def umount_ioctl_def umount_script_def umount_bytes_def fd_after_def Let_def
        KSU_UMOUNT_GETSIZE_def KSU_UMOUNT_GETLIST_def apsnd_def map_prod_def split: prod.splits)
  moreover have "outcome_of script (walk buf) [] = (if pad = [] then Faulted else Exited 0) \<and>
      texts (trace_of script (walk buf) []) = concat (map line_of es)"
    unfolding assms(4) using assms(1,2,5) by (intro printsD walk_entries) auto
  ultimately show ?thesis
    by (simp add: outcome_of_def trace_of_def split: prod.splits)
qed

lemma grab_umount_prints_witness:
  "let buf = entry_bytes ''/a'' @ entry_bytes ''/b''
   in outcome_of script grab_umount_main (umount_script 3 [7, 0, 0, 0, 0, 0, 0, 0] (buf @ [0])) = Exited 0 \<and>
      outcome_of script grab_umount_main (umount_script 3 [6, 0, 0, 0, 0, 0, 0, 0] buf) = Faulted"
proof -
  have good: "char_of (0 :: nat) \<notin> set s \<and> s \<noteq> []" if "s \<in> set [''/a'', ''/b'']" for s
    using that by (auto simp: char_of_def)
  have "outcome_of script grab_umount_main (umount_script 3 [7, 0, 0, 0, 0, 0, 0, 0]
      (entry_bytes ''/a'' @ entry_bytes ''/b'' @ [0])) = Exited 0"
    using grab_umount_prints [where es = "[''/a'', ''/b'']", OF _ good, where fd = 3 and buf = "entry_bytes ''/a'' @ entry_bytes ''/b'' @ [0]" and pad = "[0]" and sz = "[7, 0, 0, 0, 0, 0, 0, 0]"]
    by (simp add: le_nat_def entry_bytes_def)
  moreover have "outcome_of script grab_umount_main (umount_script 3 [6, 0, 0, 0, 0, 0, 0, 0]
      (entry_bytes ''/a'' @ entry_bytes ''/b'')) = Faulted"
    using grab_umount_prints [where es = "[''/a'', ''/b'']", OF _ good, where fd = 3 and buf = "entry_bytes ''/a'' @ entry_bytes ''/b''" and pad = "[]" and sz = "[6, 0, 0, 0, 0, 0, 0, 0]"]
    by (simp add: le_nat_def entry_bytes_def)
  ultimately show ?thesis by simp
qed

section \<open>The preinit demo\<close>

lemma prints_write_all: "prints K p out t \<Longrightarrow> prints K (write_all fd ss p) out (concat ss @ t)"
  by (induction ss) (simp_all add: prints_write)

text \<open>
  The preinit demo writes nothing when /dev/kmsg does not open; otherwise its greeting, all
  arguments, all environment strings and the closing line, the two constants with their
  terminating zero byte, and it returns 0 in both cases.
\<close>

theorem hello3_prints:
  "let open_call = Req SYS_openat [Val (- 100), Ptr, Val 1] (TextBuf ''/dev/kmsg'');
       fd = ucast (fst (fst (K k open_call))) :: cint
   in outcome_of K (hello3_main argv envp) k = Exited 0 \<and>
      texts (trace_of K (hello3_main argv envp) k) =
        (if fd <s 0 then []
         else with_nul hello3_msg @ concat argv @ concat envp @ with_nul hello3_msg2)"
proof -
  have body: "prints K (write_str fd (with_nul hello3_msg) (write_all fd argv (write_all fd envp
      (write_str fd (with_nul hello3_msg2) (sys_exit 0))))) (Exited 0)
      (with_nul hello3_msg @ concat argv @ concat envp @ with_nul hello3_msg2 @ [])" for fd
    by (intro prints_write prints_write_all prints_exit)
  have neg: "\<not> 0 \<le>s fd \<longleftrightarrow> fd <s 0" for fd :: cint by (simp add: word_sless_alt word_sle_eq not_le)
  obtain r b k' where K: "K k (Req SYS_openat [Val (- 100), Ptr, Val 1] (TextBuf ''/dev/kmsg'')) = ((r, b), k')"
    by (metis prod.collapse)
  show ?thesis
    using printsD [OF body, where k = k'] printsD [OF prints_exit, where k = k'] K
    by (simp add: hello3_main_def Let_def outcome_of_def trace_of_def neg)
qed

end
