(* ===== verification/Process.thy ===== *)
theory Process
  imports StartDemos
begin

text \<open>
  A whole freestanding process: the stack and the strings the kernel puts into memory, the entry
  point, \<open>prep_main\<close>, and the C program it calls with the vectors it found. It joins the register and
  memory model of the runtime to the interaction trees of the programs.
\<close>

section \<open>Reading the vectors\<close>

text \<open>
  A C string and a null-terminated vector of strings, as a program walks them; \<open>None\<close> is a walk
  that never ends. \<open>bytes\<close> is the byte view of the memory that holds the strings.
\<close>

partial_function (option) c_string_at :: "('a::len word \<Rightarrow> u8) \<Rightarrow> 'a word \<Rightarrow> string option" where
  "c_string_at bytes p =
     (if bytes p = 0 then Some [] else do { t \<leftarrow> c_string_at bytes (p + 1); Some (byte_char (bytes p) # t) })"

partial_function (option) c_vector_at ::
  "('a::len word \<Rightarrow> 'a word) \<Rightarrow> ('a word \<Rightarrow> u8) \<Rightarrow> 'a word \<Rightarrow> 'a word \<Rightarrow> string list option" where
  "c_vector_at m bytes wsz p =
     (if m p = 0 then Some []
      else do { s \<leftarrow> c_string_at bytes (m p); ss \<leftarrow> c_vector_at m bytes wsz (p + wsz); Some (s # ss) })"

text \<open>What \<open>c_main\<close> returns goes to the exit call, which is the \<open>Exited\<close> of the program.\<close>

definition start_process ::
  "arch \<Rightarrow> 'a::len word \<Rightarrow> ('a word \<Rightarrow> u8) \<Rightarrow> 'a word \<Rightarrow> 'a word cpu \<Rightarrow> ('a word \<Rightarrow> string list \<Rightarrow> string list \<Rightarrow> 'b prog) \<Rightarrow> 'b prog option" where
  "start_process a wsz bytes ret_addr s c_main =
     (let s = start_entry a ret_addr s;
          pa = prep_main wsz (mem s) (first_parameter a s)
      in do {
           argv \<leftarrow> c_vector_at (mem s) bytes wsz (pa_argv pa);
           envp \<leftarrow> c_vector_at (mem s) bytes wsz (pa_envp pa);
           Some (c_main (pa_argc pa) argv envp) })"

section \<open>The image the kernel builds\<close>

definition holds_string :: "('a::len word \<Rightarrow> u8) \<Rightarrow> 'a word \<Rightarrow> string \<Rightarrow> bool" where
  "holds_string bytes p s \<longleftrightarrow>
     (\<forall>i<length s. bytes (p + of_nat i) = char_byte (s ! i) \<and> char_byte (s ! i) \<noteq> 0) \<and>
     bytes (p + of_nat (length s)) = 0"

definition points_to_strings :: "('a::len word \<Rightarrow> u8) \<Rightarrow> 'a word list \<Rightarrow> string list \<Rightarrow> bool" where
  "points_to_strings bytes ps ss \<longleftrightarrow> list_all2 (\<lambda>p s. p \<noteq> 0 \<and> holds_string bytes p s) ps ss"

lemma c_string_at_holds: "holds_string bytes p s \<Longrightarrow> c_string_at bytes p = Some s"
proof (induction s arbitrary: p)
  case Nil
  then show ?case by (subst c_string_at.simps) (simp add: holds_string_def)
next
  case (Cons c s)
  from Cons.prems have "bytes p = char_byte c" "bytes p \<noteq> 0"
    by (auto simp: holds_string_def)
  moreover have "holds_string bytes (p + 1) s"
    unfolding holds_string_def
  proof (intro conjI allI impI)
    fix i assume "i < length s"
    with Cons.prems have "bytes (p + of_nat (Suc i)) = char_byte ((c # s) ! Suc i) \<and> char_byte ((c # s) ! Suc i) \<noteq> 0"
      unfolding holds_string_def by (auto simp del: of_nat_Suc)
    then show "bytes (p + 1 + of_nat i) = char_byte (s ! i)" "char_byte (s ! i) \<noteq> 0"
      by (simp_all add: add.assoc)
  next
    show "bytes (p + 1 + of_nat (length s)) = 0"
      using Cons.prems by (simp add: holds_string_def add.assoc)
  qed
  ultimately show ?case
    using Cons.IH by (subst c_string_at.simps) simp
qed

lemma c_vector_at_image:
  assumes "points_to_strings bytes ps ss" and "words_at m wsz p (length ps + 1) = ps @ [0]"
  shows "c_vector_at m bytes wsz p = Some ss"
  using assms unfolding points_to_strings_def
proof (induction arbitrary: p rule: list_all2_induct)
  case Nil
  then have "m p = 0" by (simp add: words_at_def)
  then show ?case by (subst c_vector_at.simps) simp
next
  case (Cons q ps s ss)
  have "words_at m wsz p (length (q # ps) + 1) = m p # words_at m wsz (p + wsz) (length ps + 1)"
    by (simp add: words_at_def upt_conv_Cons comp_def algebra_simps flip: map_Suc_upt del: upt_Suc)
  with Cons.prems have "m p = q" "words_at m wsz (p + wsz) (length ps + 1) = ps @ [0]"
    by simp_all
  with Cons c_string_at_holds [of bytes q s] show ?case
    by (subst c_vector_at.simps) simp
qed

text \<open>
  The stack holds the count, the argument pointers, a null word, the environment pointers and a null
  word; on i386 the two words the entry point pushes must not wrap around into it.
\<close>

definition stack_words :: "'a::len word list \<Rightarrow> 'a word list \<Rightarrow> 'a word list" where
  "stack_words args env = of_nat (length args) # args @ [0] @ env @ [0]"

definition process_image ::
  "arch \<Rightarrow> 'a::len word \<Rightarrow> ('a word \<Rightarrow> u8) \<Rightarrow> 'a word cpu \<Rightarrow> 'a word list \<Rightarrow> 'a word list \<Rightarrow> string list \<Rightarrow> string list \<Rightarrow> bool" where
  "process_image a wsz bytes s args env argv envp \<longleftrightarrow>
     points_to_strings bytes args argv \<and> points_to_strings bytes env envp \<and>
     stack_image (mem s) wsz (stack_pointer a s) (stack_words args env) \<and>
     (\<forall>i<length (stack_words args env).
        stack_pointer a s + of_nat i * wsz \<notin> {stack_pointer a s - 4, stack_pointer a s - 8})"

lemma start_process_image:
  fixes s :: "'a::len word cpu"
  assumes "process_image a wsz bytes s args env argv envp" and "(4 :: 'a word) \<noteq> 0"
  shows "start_process a wsz bytes ret_addr s c_main = Some (c_main (of_nat (length argv)) argv envp)"
proof -
  define s' where "s' = start_entry a ret_addr s"
  define pa where "pa = prep_main wsz (mem s') (first_parameter a s')"
  have strings: "points_to_strings bytes args argv" "points_to_strings bytes env envp"
    using assms(1) by (simp_all add: process_image_def)
  then have len: "length argv = length args"
    by (simp add: points_to_strings_def list_all2_lengthD [symmetric])
  have "pa_argc pa = of_nat (length args) \<and>
    words_at (mem s') wsz (pa_argv pa) (length args + 1) = args @ [0] \<and>
    words_at (mem s') wsz (pa_envp pa) (length env + 1) = env @ [0]"
    using assms unfolding process_image_def stack_words_def
    by (intro prep_main_finds_arguments [OF _ _ _ s'_def pa_def]) simp_all
  then show ?thesis
    unfolding start_process_def s'_def [symmetric] Let_def pa_def [symmetric]
    by (simp add: c_vector_at_image [OF strings(1)] c_vector_at_image [OF strings(2)] len)
qed

section \<open>Properties\<close>

text \<open>
  C13: a process started on the image the kernel builds calls its C program with exactly the argument
  count and the strings of the image, on every architecture; so \<open>small_start\<close> prints each argument and
  each environment string on a line and returns 0, or dereferences the null pointer that ends an
  empty vector.
\<close>

theorem started_process:
  fixes s :: "'a::len word cpu"
  assumes "process_image a wsz bytes s args env argv envp" and "(4 :: 'a word) \<noteq> 0"
  shows "start_process a wsz bytes ret_addr s c_main = Some (c_main (of_nat (length argv)) argv envp) \<and>
    (\<exists>p. start_process a wsz bytes ret_addr s (\<lambda>_. small_start_main) = Some p \<and>
      (if argv = [] \<or> envp = [] then outcome_of K p k = Faulted
       else outcome_of K p k = Exited 0 \<and> texts (trace_of K p k) = concat (map line_of (argv @ envp))))"
  using small_start_prints [of K argv envp k] by (simp add: start_process_image [OF assms])

text \<open>One argument "a" and one environment string "b" on an arm64 stack.\<close>

definition example_cpu :: "64 word cpu" where
  "example_cpu = \<lparr>gpr = (\<lambda>_. 64), mem = (\<lambda>p. if p = 64 then 1 else if p = 72 then 500 else if p = 88 then 600 else 0)\<rparr>"

definition example_bytes :: "64 word \<Rightarrow> u8" where
  "example_bytes p = (if p = 500 then 97 else if p = 600 then 98 else 0)"

lemma example_image: "process_image AArch64 8 example_bytes example_cpu [500] [600] [''a''] [''b'']"
proof -
  have "holds_string example_bytes 500 ''a''" "holds_string example_bytes 600 ''b''"
    by (simp_all add: holds_string_def example_bytes_def char_byte_def)
  then show ?thesis
    by (simp add: process_image_def points_to_strings_def stack_image_def stack_words_def stack_pointer_def
        example_cpu_def All_less_Suc)
qed

lemma started_process_witness:
  "\<exists>p. start_process AArch64 8 example_bytes 0 example_cpu (\<lambda>_. small_start_main) = Some p \<and>
     texts (trace_of script p []) = line_of ''a'' @ line_of ''b''"
  using started_process [OF example_image, where ret_addr = 0 and K = script and k = "[]" and c_main = "\<lambda>_. small_start_main"]
  by auto

end
