(* ===== verification/SuperUser.thy ===== *)
theory SuperUser
  imports AppProfile
begin

text \<open>
  The three programs that ask KernelSU for root and become a shell: \<open>kernelsu/tinyfs_su/su.c\<close>
  (freestanding), \<open>su-ndk.c\<close> (the same with the C library) and \<open>small_start_tests/small_su.c\<close>.
  A call lists the arguments the kernel reads; the padding zeros of the freestanding calls are
  left out. Returning from \<open>c_main\<close> is the exit call of \<open>prep_main\<close>.
\<close>

definition KSU_IOCTL_GRANT_ROOT :: clong where
  "KSU_IOCTL_GRANT_ROOT = IOC 0 CHR ''K'' 1 0"

definition data_adb_ksud :: string where "data_adb_ksud = ''/data/adb/ksud''"
definition system_bin_sh :: string where "system_bin_sh = ''/system/bin/sh''"

text \<open>
  \<open>argv[0] = "su"\<close>: with an empty vector this overwrites the null pointer that ends it, and the
  vector then runs on into the environment, which lies behind it on the stack.
\<close>

definition rename_argv0 :: "string list \<Rightarrow> string list \<Rightarrow> string list" where
  "rename_argv0 argv envp = (case argv of [] \<Rightarrow> ''su'' # envp | _ # rest \<Rightarrow> ''su'' # rest)"

definition reboot_args :: "arg list" where
  "reboot_args = [Val KSU_INSTALL_MAGIC1, Val KSU_INSTALL_MAGIC2, Val 0, Ptr]"

definition grant_args :: "cint \<Rightarrow> arg list" where
  "grant_args fd = [Val (scast fd), Val KSU_IOCTL_GRANT_ROOT, Val 0]"

text \<open>\<open>execve\<close> returns only when it fails.\<close>

definition sys_execve :: "string \<Rightarrow> string list \<Rightarrow> string list \<Rightarrow> uapi \<Rightarrow> uapi" where
  "sys_execve path argv envp k =
     sys SYS_execve [Ptr, Ptr, Ptr] (ExecBuf path argv envp) (\<lambda>r _. if r = 0 then Done Replaced else k)"

definition libc_execve :: "string \<Rightarrow> string list \<Rightarrow> string list \<Rightarrow> uapi \<Rightarrow> uapi" where
  "libc_execve path argv envp k =
     libc_syscall SYS_execve [Ptr, Ptr, Ptr] (ExecBuf path argv envp) (\<lambda>r _. if r = 0 then Done Replaced else k)"

definition su_main :: "string list \<Rightarrow> string list \<Rightarrow> uapi" where
  "su_main argv envp =
     (let argv = rename_argv0 argv envp
      in sys SYS_reboot reboot_args (FdBuf 0) (\<lambda>_ b.
           let fd = fd_after b 0
           in if fd = 0 then Done Trapped
              else sys SYS_ioctl (grant_args fd) NoBuf (\<lambda>r _.
                let ret = ucast r :: cint
                in if ret <s 0 then Done Trapped
                   else sys_execve data_adb_ksud argv envp
                          (sys_execve system_bin_sh argv envp (Done Trapped)))))"

definition su_ndk_main :: "string list \<Rightarrow> string list \<Rightarrow> uapi" where
  "su_ndk_main argv envp =
     (let argv = rename_argv0 argv envp
      in libc_syscall SYS_reboot reboot_args (FdBuf 0) (\<lambda>_ b.
           let fd = fd_after b 0
           in if fd = 0 then Done Trapped
              else libc_syscall SYS_ioctl (grant_args fd) NoBuf (\<lambda>r _.
                let ret = ucast r :: cint
                in if ret <s 0 then Done Trapped
                   else libc_execve data_adb_ksud argv envp
                          (libc_execve system_bin_sh argv envp (Done Trapped)))))"

definition denied :: uapi where
  "denied = (let error = ''Denied'' @ newline
             in sys SYS_write [Val 2, Ptr, Val (of_nat (length error))] (TextBuf error) (\<lambda>_ _. Done (Exited 1)))"

definition debug_msg :: string where
  "debug_msg = ''KernelSU: kernelnosu su->ksud'' @ newline"

text \<open>\<open>AT_FDCWD\<close> is -100 and \<open>O_WRONLY\<close> is 1.\<close>

definition kmsg_note :: "uapi \<Rightarrow> uapi" where
  "kmsg_note k =
     sys SYS_openat [Val (- 100), Ptr, Val 1] (TextBuf ''/dev/kmsg'') (\<lambda>r _.
       let fd = ucast r :: cint
       in if 0 \<le>s fd then
            sys SYS_write [Val (scast fd), Ptr, Val (of_nat (length debug_msg))] (TextBuf debug_msg) (\<lambda>_ _.
              sys SYS_close [Val (scast fd)] NoBuf (\<lambda>_ _. k))
          else k)"

text \<open>\<open>memcmp\<close> of the first five bytes of \<open>argv[0]\<close>; a shorter string differs at its terminator.\<close>

definition small_su_main :: "string list \<Rightarrow> string list \<Rightarrow> uapi" where
  "small_su_main argv envp =
     (case argv_at argv 0 of
        Str arg0 \<Rightarrow>
          if take 5 arg0 = ''/data'' then denied
          else sys SYS_reboot reboot_args (FdBuf 0) (\<lambda>_ b.
            let fd = fd_after b 0
            in if fd = 0 then denied
               else sys SYS_ioctl (grant_args fd) NoBuf (\<lambda>r _.
                 let ret = ucast r :: cint
                 in if ret <s 0 then denied
                    else kmsg_note (sys_execve data_adb_ksud (rename_argv0 argv envp) envp denied)))
      | _ \<Rightarrow> Done Faulted)"

section \<open>Equivalence of the two builds\<close>

lemma libc_result_int_neg: "(ucast (libc_result r) :: cint) <s 0 \<longleftrightarrow> (ucast r :: cint) <s 0"
proof (cases "r <s 0 \<and> - 4095 \<le>s r")
  case True
  then have "sint r \<in> {- 4095..- 1}" by (auto simp: word_sless_alt word_sle_eq)
  moreover have "sint (ucast r :: cint) = sint r" if "sint r \<in> {- 4095..- 1}"
  proof -
    have "(ucast r :: cint) = word_of_int (sint r)"
      by (rule bit_word_eqI) (simp add: bit_simps)
    moreover have "sint (word_of_int j :: cint) = j" if "j \<in> {- 4095..- 1}" for j
      using that by (simp add: signed_of_int signed_take_bit_int_eq_self)
    ultimately show ?thesis using that by metis
  qed
  moreover have "(ucast (- 1 :: clong) :: cint) = - 1" by (rule bit_word_eqI) (simp add: bit_simps)
  ultimately show ?thesis
    using True by (auto simp: libc_result_def syscall_gate_errno_def word_sless_alt)
qed (auto simp: libc_result_def syscall_gate_errno_def)

text \<open>
  C32: the freestanding and the C library build of the tiny \<open>su\<close> behave alike on every kernel:
  same calls, same outcome, although only one of them converts error numbers.
\<close>

theorem su_builds_agree: "run K (su_main argv envp) = run K (su_ndk_main argv envp)"
  by (rule ext)
     (simp add: su_main_def su_ndk_main_def sys_execve_def libc_execve_def libc_result_int_neg Let_def
       split: prod.splits)

section \<open>Who becomes root\<close>

text \<open>
  The protocol all three programs follow: a descriptor from the driver, a grant that did not
  fail, and only then a new image, started under the name \<open>su\<close>; after a refusal nothing is done
  but to write the denial.
\<close>

datatype su_phase = SuIdle | SuHeld cint | SuGranted | SuDenied

definition starts_shell :: "uapi_buf req \<Rightarrow> bool" where
  "starts_shell q \<longleftrightarrow> req_no q = SYS_execve \<and>
     (case req_buf q of
        ExecBuf path argv envp \<Rightarrow> path \<in> {data_adb_ksud, system_bin_sh} \<and> argv \<noteq> [] \<and> hd argv = ''su''
      | _ \<Rightarrow> False)"

definition writes_denial :: "uapi_buf req \<Rightarrow> bool" where
  "writes_denial q \<longleftrightarrow> q = Req SYS_write [Val 2, Ptr, Val 7] (TextBuf (''Denied'' @ newline))"

fun su_protocol :: "(su_phase, uapi_buf) protocol" where
  "su_protocol SuIdle q (r, b) =
     (if writes_denial q then Some SuDenied
      else if q = Req SYS_reboot reboot_args (FdBuf 0)
      then Some (if fd_after b 0 = 0 then SuDenied else SuHeld (fd_after b 0)) else None)"
| "su_protocol (SuHeld fd) q (r, b) =
     (if q = Req SYS_ioctl (grant_args fd) NoBuf
      then Some (if (ucast r :: cint) <s 0 then SuDenied else SuGranted) else None)"
| "su_protocol SuGranted q (r, b) =
     (if starts_shell q \<or> req_no q \<in> {SYS_openat, SYS_write, SYS_close} then Some SuGranted else None)"
| "su_protocol SuDenied q (r, b) = (if writes_denial q then Some SuDenied else None)"

lemma rename_argv0_su [simp]: "rename_argv0 argv envp \<noteq> []" "hd (rename_argv0 argv envp) = ''su''"
  by (simp_all add: rename_argv0_def split: list.splits)

lemma length_denial: "of_nat (length (''Denied'' @ newline)) = (7 :: clong)"
  by (simp add: newline_def)

lemma conforms_denied:
  assumes "s \<in> {SuIdle, SuGranted, SuDenied}"
  shows "conforms su_protocol denied s"
  using assms unfolding denied_def Let_def length_denial
  by (auto simp: writes_denial_def)

lemma conforms_exec:
  assumes "path \<in> {data_adb_ksud, system_bin_sh}" and "conforms su_protocol k SuGranted"
  shows "conforms su_protocol (sys_execve path (rename_argv0 argv envp) envp k) SuGranted"
  using assms by (auto simp: sys_execve_def starts_shell_def)

lemma conforms_libc_exec:
  assumes "path \<in> {data_adb_ksud, system_bin_sh}" and "conforms su_protocol k SuGranted"
  shows "conforms su_protocol (libc_execve path (rename_argv0 argv envp) envp k) SuGranted"
  using assms by (auto simp: libc_execve_def starts_shell_def)

lemma su_programs_conform:
  "conforms su_protocol (su_main argv envp) SuIdle"
  "conforms su_protocol (su_ndk_main argv envp) SuIdle"
  "conforms su_protocol (small_su_main argv envp) SuIdle"
proof -
  have reboot: "\<not> writes_denial (Req SYS_reboot reboot_args (FdBuf 0))"
    by (simp add: writes_denial_def)
  show "conforms su_protocol (su_main argv envp) SuIdle"
    unfolding su_main_def Let_def using reboot
    by (auto intro!: conforms_exec)
  show "conforms su_protocol (su_ndk_main argv envp) SuIdle"
    unfolding su_ndk_main_def Let_def using reboot
    by (auto simp: libc_result_int_neg intro!: conforms_libc_exec)
  show "conforms su_protocol (small_su_main argv envp) SuIdle"
    unfolding small_su_main_def kmsg_note_def Let_def using reboot
    by (auto intro!: conforms_exec conforms_denied split: arg_read.splits)
qed

text \<open>
  C4: on every kernel each of the three programs follows the protocol: no new image is started
  unless the driver returned a nonzero descriptor and granted root on it, the image is ksud or the
  shell under the name \<open>su\<close>, and a refused program does nothing but write the denial.
\<close>

theorem su_only_after_grant:
  "accepted su_protocol SuIdle (trace_of K (su_main argv envp) k) \<and>
   accepted su_protocol SuIdle (trace_of K (su_ndk_main argv envp) k) \<and>
   accepted su_protocol SuIdle (trace_of K (small_su_main argv envp) k)"
  by (intro conjI conforms_accepted su_programs_conform)

text \<open>
  Called under a name that starts with /data, \<open>small_su\<close> asks the driver for nothing: on every
  kernel its only call writes the denial, and it returns 1; without any name it faults.
\<close>

theorem small_su_denies_data:
  "run K (small_su_main ((''/data'' @ rest) # args) envp) k =
     (Exited 1, [Called (Req SYS_write [Val 2, Ptr, Val 7] (TextBuf (''Denied'' @ newline)))
        (fst (K k (Req SYS_write [Val 2, Ptr, Val 7] (TextBuf (''Denied'' @ newline)))))]) \<and>
   run K (small_su_main [] envp) k = (Faulted, [])"
  unfolding small_su_main_def denied_def Let_def length_denial
  by (simp add: argv_at_def case_prod_unfold)

end
