(* ===== verification/Interleaving.thy ===== *)
theory Interleaving
  imports SuperUser
begin

text \<open>
  Several processes on one kernel: a small-step semantics that interleaves the programs, lets the
  kernel change between any two steps, and makes \<open>clone\<close> create a process. What a program keeps to
  against every kernel it keeps to in every interleaving.
\<close>

section \<open>Systems of processes\<close>

text \<open>
  A process is what remains of its program and what it has done. The kernel answers \<open>clone\<close> in the
  parent with an error or a process id within the kernel's limit; then there is a child, which sees
  the same call answered with 0.
\<close>

type_synonym 'b process = "'b prog \<times> 'b event list"

definition is_pid :: "clong \<Rightarrow> bool" where
  "is_pid r \<longleftrightarrow> 0 < sint r \<and> sint r \<le> 2 ^ 22"

inductive system_step ::
  "('k, 'b) kernel \<Rightarrow> 'k \<times> 'b process list \<Rightarrow> 'k \<times> 'b process list \<Rightarrow> bool"
  for K :: "('k, 'b) kernel" where
  print: "i < length ps \<Longrightarrow> ps ! i = (Out t p, tr) \<Longrightarrow>
     system_step K (k, ps) (k, ps[i := (p, tr @ [Printed t])])"
| trap: "i < length ps \<Longrightarrow> ps ! i = (Call q f, tr) \<Longrightarrow> K k q = ((r, b), k') \<Longrightarrow>
     (req_no q = SYS_clone \<Longrightarrow> sint r < 0) \<Longrightarrow>
     system_step K (k, ps) (k', ps[i := (f (r, b), tr @ [Called q (r, b)])])"
| fork: "i < length ps \<Longrightarrow> ps ! i = (Call q f, tr) \<Longrightarrow> K k q = ((r, b), k') \<Longrightarrow>
     req_no q = SYS_clone \<Longrightarrow> is_pid r \<Longrightarrow>
     system_step K (k, ps)
       (k', ps[i := (f (r, b), tr @ [Called q (r, b)])] @ [(f (0, b), tr @ [Called q (0, b)])])"
| other: "system_step K (k, ps) (k', ps)"

inductive_cases system_stepE [elim]: "system_step K (k, ps) (k', ps')"

definition start_all :: "'b prog list \<Rightarrow> 'b process list" where
  "start_all progs = map (\<lambda>p. (p, [])) progs"

text \<open>A run of one program is one of the interleavings: the process makes all its steps at once.\<close>

definition forks :: "'b event \<Rightarrow> bool" where
  "forks e = (case e of Called q (r, b) \<Rightarrow> req_no q = SYS_clone \<and> \<not> sint r < 0 | _ \<Rightarrow> False)"

lemma run_reachable:
  assumes "i < length ps" and "run K p k = (x, tr')" and "\<not> list_ex forks tr'"
  shows "\<exists>k'. (system_step K)\<^sup>*\<^sup>* (k, ps[i := (p, tr)]) (k', ps[i := (Done x, tr @ tr')])"
  using assms(2,3)
proof (induction p arbitrary: k tr tr')
  case (Out t p)
  then obtain tr2 where tr2: "tr' = Printed t # tr2" "run K p k = (x, tr2)"
    by (cases "run K p k") auto
  have "system_step K (k, ps[i := (Out t p, tr)]) (k, ps[i := (p, tr @ [Printed t])])"
    using system_step.print [of i "ps[i := (Out t p, tr)]" t p tr K k] assms(1) by simp
  moreover obtain k' where "(system_step K)\<^sup>*\<^sup>* (k, ps[i := (p, tr @ [Printed t])]) (k', ps[i := (Done x, (tr @ [Printed t]) @ tr2)])"
    using Out.IH [OF tr2(2), of "tr @ [Printed t]"] Out.prems(2) tr2(1) by auto
  ultimately show ?case using tr2(1) by (auto intro: converse_rtranclp_into_rtranclp)
next
  case (Call q f)
  obtain r b k1 where K: "K k q = ((r, b), k1)" by (metis prod.collapse)
  then obtain tr2 where tr2: "tr' = Called q (r, b) # tr2" "run K (f (r, b)) k1 = (x, tr2)"
    using Call.prems(1) by (cases "run K (f (r, b)) k1") auto
  have "system_step K (k, ps[i := (Call q f, tr)]) (k1, ps[i := (f (r, b), tr @ [Called q (r, b)])])"
    using system_step.trap [of i "ps[i := (Call q f, tr)]" q f tr K k r b k1] assms(1) K Call.prems(2)
    by (simp add: tr2(1) forks_def)
  moreover obtain k' where "(system_step K)\<^sup>*\<^sup>* (k1, ps[i := (f (r, b), tr @ [Called q (r, b)])]) (k', ps[i := (Done x, (tr @ [Called q (r, b)]) @ tr2)])"
    using Call.IH [OF rangeI tr2(2), of "tr @ [Called q (r, b)]"] Call.prems(2) tr2(1) by auto
  ultimately show ?case using tr2(1) by (auto intro: converse_rtranclp_into_rtranclp)
qed auto

section \<open>Invariants of a process\<close>

text \<open>
  A property of a process that every step of its program keeps holds for all processes of a system
  that starts with such processes, the forked ones included.
\<close>

locale process_invariant =
  fixes P :: "'b process \<Rightarrow> bool"
  assumes keeps_print: "P (Out t p, tr) \<Longrightarrow> P (p, tr @ [Printed t])"
    and keeps_call: "P (Call q f, tr) \<Longrightarrow> P (f r, tr @ [Called q r])"
begin

lemma system_step_keeps:
  assumes "system_step K (k, ps) (k', ps')" and "\<forall>x \<in> set ps. P x"
  shows "\<forall>x \<in> set ps'. P x"
  using assms(1)
proof cases
  case (print i t p tr)
  then have "P (p, tr @ [Printed t])" using assms(2) nth_mem keeps_print by metis
  with print assms(2) show ?thesis by (auto dest!: set_update_subset_insert [THEN subsetD])
next
  case (trap i q f tr r b)
  then have "P (f (r, b), tr @ [Called q (r, b)])" using assms(2) nth_mem keeps_call by metis
  with trap assms(2) show ?thesis by (auto dest!: set_update_subset_insert [THEN subsetD])
next
  case (fork i q f tr r b)
  then have "P (f x, tr @ [Called q x])" for x using assms(2) nth_mem keeps_call by metis
  with fork assms(2) show ?thesis by (auto dest!: set_update_subset_insert [THEN subsetD])
qed (use assms in simp)

lemma reachable_keeps:
  assumes "(system_step K)\<^sup>*\<^sup>* (k0, ps0) (k, ps)" and "\<forall>x \<in> set ps0. P x"
  shows "\<forall>x \<in> set ps. P x"
  using assms(1)
proof (induction "(k, ps)" arbitrary: k ps rule: rtranclp_induct)
  case (step y)
  then show ?case by (cases y) (metis system_step_keeps)
qed (use assms(2) in simp)

end

section \<open>Protocols at every moment\<close>

text \<open>The state of a protocol after a trace; a process follows it when its rest conforms from there.\<close>

fun after :: "('s, 'b) protocol \<Rightarrow> 's \<Rightarrow> 'b event list \<Rightarrow> 's option" where
  "after spec s [] = Some s"
| "after spec s (Printed t # tr) = after spec s tr"
| "after spec s (Called q r # tr) = (case spec s q r of None \<Rightarrow> None | Some s' \<Rightarrow> after spec s' tr)"

lemma after_append: "after spec s (tr @ tr') = (case after spec s tr of None \<Rightarrow> None | Some s' \<Rightarrow> after spec s' tr')"
  by (induction spec s tr rule: after.induct) (simp_all split: option.split)

lemma accepted_after: "accepted spec s tr \<longleftrightarrow> after spec s tr \<noteq> None"
  by (induction spec s tr rule: accepted.induct) (simp_all split: option.split)

definition follows :: "('s, 'b) protocol \<Rightarrow> 's \<Rightarrow> 'b process \<Rightarrow> bool" where
  "follows spec s x \<longleftrightarrow> (\<exists>s'. after spec s (snd x) = Some s' \<and> conforms spec (fst x) s')"

lemma follows_start: "conforms spec p s \<Longrightarrow> follows spec s (p, [])"
  by (simp add: follows_def)

lemma follows_accepted: "follows spec s (p, tr) \<Longrightarrow> accepted spec s tr"
  by (auto simp: follows_def accepted_after)

interpretation follows: process_invariant "follows spec s" for spec s
proof
  show "follows spec s (Out t p, tr) \<Longrightarrow> follows spec s (p, tr @ [Printed t])" for t p tr
    by (auto simp: follows_def after_append)
  show "follows spec s (f r, tr @ [Called q r])" if call: "follows spec s (Call q f, tr)" for q f r tr
  proof -
    obtain s1 where s1: "after spec s tr = Some s1" "conforms spec (Call q f) s1"
      using call by (auto simp: follows_def)
    then obtain s2 where "spec s1 q r = Some s2" "conforms spec (f r) s2"
      by (cases r) (auto simp: case_option_ex)
    with s1(1) show ?thesis by (simp add: follows_def after_append)
  qed
qed

interpretation verified: process_invariant "\<lambda>(p, tr). verified p tr Q" for Q
  by unfold_locales auto

section \<open>The KernelSU tools side by side\<close>

definition tool_programs :: "uapi set" where
  "tool_programs =
     {su_main argv envp | argv envp. True} \<union> {su_ndk_main argv envp | argv envp. True} \<union>
     {small_su_main argv envp | argv envp. True} \<union> {profile_main stale argv | stale argv. True}"

definition follows_tool :: "uapi_buf process \<Rightarrow> bool" where
  "follows_tool x \<longleftrightarrow> follows su_protocol SuIdle x \<or> (\<exists>argv. follows (profile_protocol argv) Start x)"

interpretation tool: process_invariant follows_tool
  by unfold_locales
     (auto simp: follows_tool_def intro: follows.keeps_print follows.keeps_call)

lemma tools_start: "set progs \<subseteq> tool_programs \<Longrightarrow> \<forall>x \<in> set (start_all progs). follows_tool x"
  by (force simp: tool_programs_def start_all_def follows_tool_def
      intro: follows_start su_programs_conform profile_main_conforms)

definition granted :: "cint \<Rightarrow> uapi_buf event list \<Rightarrow> bool" where
  "granted fd tr \<longleftrightarrow> fd \<noteq> 0 \<and>
     (\<exists>r b. Called (Req SYS_reboot reboot_args (FdBuf 0)) (r, b) \<in> set tr \<and> fd_after b 0 = fd) \<and>
     (\<exists>r b. Called (Req SYS_ioctl (grant_args fd) NoBuf) (r, b) \<in> set tr \<and> \<not> (ucast r :: cint) <s 0)"

definition su_history :: "su_phase \<Rightarrow> uapi_buf event list \<Rightarrow> bool" where
  "su_history s tr \<longleftrightarrow>
     (case s of
        SuHeld fd \<Rightarrow> fd \<noteq> 0 \<and> (\<exists>r b. Called (Req SYS_reboot reboot_args (FdBuf 0)) (r, b) \<in> set tr \<and> fd_after b 0 = fd)
      | SuGranted \<Rightarrow> \<exists>fd. granted fd tr
      | _ \<Rightarrow> True)"

lemma after_su_history: "after su_protocol SuIdle tr = Some s \<Longrightarrow> su_history s tr"
proof (induction tr arbitrary: s rule: rev_induct)
  case Nil
  then show ?case by (auto simp: su_history_def)
next
  case (snoc e tr)
  from snoc.prems obtain s0 where s0: "after su_protocol SuIdle tr = Some s0" "after su_protocol s0 [e] = Some s"
    by (auto simp: after_append split: option.splits)
  have "su_history s0 tr" by (rule snoc.IH [OF s0(1)])
  then show ?case
  proof (cases e)
    case (Called q x)
    obtain r b where x: "x = (r, b)" by fastforce
    have "su_protocol s0 q (r, b) = Some s" using s0(2) by (auto simp: Called x split: option.splits)
    then show ?thesis
      using \<open>su_history s0 tr\<close>
      by (cases s0) (auto simp: su_history_def granted_def Called x split: if_splits su_phase.splits)
  qed (use s0(2) in \<open>auto simp: su_history_def granted_def split: su_phase.splits\<close>)
qed

lemma su_exec_granted:
  "after su_protocol SuIdle (tr1 @ Called q r # tr2) \<noteq> None \<Longrightarrow> req_no q = SYS_execve \<Longrightarrow> \<exists>fd. granted fd tr1"
proof -
  assume ok: "after su_protocol SuIdle (tr1 @ Called q r # tr2) \<noteq> None" and q: "req_no q = SYS_execve"
  then obtain s where s: "after su_protocol SuIdle tr1 = Some s" "su_protocol s q r \<noteq> None"
    by (auto simp: after_append split: option.splits)
  then have "s = SuGranted"
    using q by (cases s; cases r) (auto simp: writes_denial_def split: if_splits)
  with after_su_history [OF s(1)] show ?thesis by (simp add: su_history_def)
qed

lemma profile_never_executes:
  "after (profile_protocol argv) s0 (tr1 @ Called q r # tr2) \<noteq> None \<Longrightarrow> req_no q \<noteq> SYS_execve"
proof
  assume ok: "after (profile_protocol argv) s0 (tr1 @ Called q r # tr2) \<noteq> None" and q: "req_no q = SYS_execve"
  then obtain s where "profile_protocol argv s q r \<noteq> None"
    by (auto simp: after_append split: option.splits)
  with q show False
    by (cases s; cases r) (auto simp: is_ioctl_def may_set_def split: if_splits)
qed

text \<open>
  C5: in every interleaving of any number of \<open>su\<close> processes and profile tools, with the kernel doing
  anything in between, a process that asks for a new image has itself, before, got a nonzero
  descriptor from the driver and a grant on that descriptor; no grant of another process helps it.
\<close>

theorem interleaved_su_needs_own_grant:
  assumes "(system_step K)\<^sup>*\<^sup>* (k0, start_all progs) (k, ps)" and "set progs \<subseteq> tool_programs"
    and "(p, tr1 @ Called q r # tr2) \<in> set ps" and "req_no q = SYS_execve"
  shows "\<exists>fd. granted fd tr1"
proof -
  have "follows_tool (p, tr1 @ Called q r # tr2)"
    using tool.reachable_keeps [OF assms(1) tools_start [OF assms(2)]] assms(3) by blast
  then show ?thesis
    unfolding follows_tool_def
    using su_exec_granted [OF _ assms(4)] profile_never_executes assms(4)
    by (metis accepted_after follows_accepted)
qed

text \<open>A granted \<open>su\<close> next to a profile tool that has not started.\<close>

lemma interleaved_su_needs_own_grant_witness:
  "\<exists>q tr1 tr2 k ps. (system_step script)\<^sup>*\<^sup>*
       ([(0, FdBuf 3), (0, NoBuf), (0, NoBuf)], start_all [su_main [''su''] [], profile_main 0 []]) (k, ps) \<and>
     (Done Replaced, tr1 @ Called q (0, NoBuf) # tr2) \<in> set ps \<and> req_no q = SYS_execve \<and> (\<exists>fd. granted fd tr1)"
proof -
  let ?progs = "[su_main [''su''] [], profile_main 0 []]"
  let ?exec = "Req SYS_execve [Ptr, Ptr, Ptr] (ExecBuf data_adb_ksud [''su''] [])"
  define tr1 where "tr1 = [Called (Req SYS_reboot reboot_args (FdBuf 0)) (0, FdBuf 3),
    Called (Req SYS_ioctl (grant_args 3) NoBuf) (0, NoBuf :: uapi_buf)]"
  have run: "run script (su_main [''su''] []) [(0, FdBuf 3), (0, NoBuf), (0, NoBuf)] = (Replaced, tr1 @ [Called ?exec (0, NoBuf)])"
    by (simp add: su_main_def sys_execve_def rename_argv0_def fd_after_def tr1_def Let_def)
  have "(start_all ?progs)[0 := (su_main [''su''] [], [])] = start_all ?progs"
    by (simp add: start_all_def)
  then obtain k where reach: "(system_step script)\<^sup>*\<^sup>* ([(0, FdBuf 3), (0, NoBuf), (0, NoBuf)], start_all ?progs)
      (k, (start_all ?progs)[0 := (Done Replaced, tr1 @ [Called ?exec (0, NoBuf)])])"
    using run_reachable [of 0 "start_all ?progs", OF _ run, of "[]"]
    by (auto simp: start_all_def forks_def tr1_def)
  have ex: "(Done Replaced, tr1 @ Called ?exec (0, NoBuf) # []) \<in> set ((start_all ?progs)[0 := (Done Replaced, tr1 @ [Called ?exec (0, NoBuf)])])"
    by (simp add: start_all_def)
  have "set ?progs \<subseteq> tool_programs"
    by (auto simp: tool_programs_def)
  from interleaved_su_needs_own_grant [OF reach this ex] have "\<exists>fd. granted fd tr1" by simp
  then have "(system_step script)\<^sup>*\<^sup>* ([(0, FdBuf 3), (0, NoBuf), (0, NoBuf)], start_all ?progs)
        (k, (start_all ?progs)[0 := (Done Replaced, tr1 @ [Called ?exec (0, NoBuf)])]) \<and>
      (Done Replaced, tr1 @ Called ?exec (0, NoBuf) # []) \<in> set ((start_all ?progs)[0 := (Done Replaced, tr1 @ [Called ?exec (0, NoBuf)])]) \<and>
      req_no ?exec = SYS_execve \<and> (\<exists>fd. granted fd tr1)"
    by (intro conjI reach ex) simp_all
  then show ?thesis by blast
qed

end
