(* ===== verification/SyscallBench.thy ===== *)
theory SyscallBench
  imports StartDemos
begin

text \<open>
  The system call benchmarks: \<open>syscall_shit/syscall_bench_nocrt0/bench.c\<close> and
  \<open>bench_faccessat2.c\<close> (freestanding, decimal printing by hand) and
  \<open>syscall_shit/syscall_bench/bench.c\<close> (C library), for the LP64 targets. A timed loop of a
  million calls is a recursion on the iteration counter.
\<close>

section \<open>Printing numbers\<close>

definition n_iterations :: nat where "n_iterations = 1000000"
definition n_iteration_digits :: nat where "n_iteration_digits = 7"

text \<open>
  \<open>long_to_str\<close>: the last digit goes to the last place first; a length of 0 or beyond the buffer
  is a write outside it.
\<close>

definition digit_at :: "u64 \<Rightarrow> char" where
  "digit_at number = char_of (unat (ucast (48 + number mod 10) :: u8))"

fun long_to_str :: "u64 \<Rightarrow> nat \<Rightarrow> string \<Rightarrow> string option" where
  "long_to_str number 0 buf = None"
| "long_to_str number (Suc len) buf =
     (if length buf \<le> len then None
      else
        (let buf = buf[len := digit_at number];
             number = number div 10
         in if len > 0 then long_to_str number len buf else Some buf))"

section \<open>Targets\<close>

text \<open>
  The freestanding programs have two builds. On 32-bit ARM they read the clock with the old call
  and its 32-bit fields, \<open>unsigned long\<close> keeps 32 bits of the average, and there is one benchmark more.
  (\<open>SYS_newfstatat\<close> is another name for \<open>SYS_fstatat64\<close> there.)
\<close>

datatype build = LP64 | ARM32

definition to_unsigned_long :: "build \<Rightarrow> u64 \<Rightarrow> u64" where
  "to_unsigned_long b v = (case b of LP64 \<Rightarrow> v | ARM32 \<Rightarrow> take_bit 32 v)"

definition print_out :: "string \<Rightarrow> uapi \<Rightarrow> uapi" where
  "print_out buf k = write_str 1 buf k"

section \<open>Seccomp check\<close>

definition WIFSIGNALED :: "cint \<Rightarrow> bool" where
  "WIFSIGNALED status \<longleftrightarrow> status AND 0x7f \<noteq> 0 \<and> status AND 0x7f \<noteq> 0x7f"

definition SIGCHLD :: clong where "SIGCHLD = 17"

definition status_after :: "uapi_buf \<Rightarrow> cint" where
  "status_after b = (case b of WordsBuf [w] \<Rightarrow> ucast w | _ \<Rightarrow> 0)"

text \<open>
  The two versions differ in \<open>call\<close>, the raw call or the C library's, and in the type of \<open>pid\<close>,
  \<open>long\<close> or the \<open>int\<close> type \<open>pid_t\<close>. The child of the clone ends with its own exit.
\<close>

definition to_pid :: "clong \<Rightarrow> clong" where
  "to_pid r = scast (ucast r :: cint)"

text \<open>The result of a raw call as a \<open>long\<close>, which is 32 bits wide on ARM.\<close>

definition long_result :: "build \<Rightarrow> clong \<Rightarrow> clong" where
  "long_result b r = (case b of LP64 \<Rightarrow> r | ARM32 \<Rightarrow> to_pid r)"

type_synonym caller = "sysno \<Rightarrow> arg list \<Rightarrow> uapi_buf \<Rightarrow> (clong \<Rightarrow> uapi_buf \<Rightarrow> uapi) \<Rightarrow> uapi"

definition check_seccomp :: "caller \<Rightarrow> (clong \<Rightarrow> clong) \<Rightarrow> (bool \<Rightarrow> uapi) \<Rightarrow> uapi" where
  "check_seccomp call conv k =
     call SYS_clone [Val SIGCHLD, Val 0, Val 0, Val 0, Val 0] NoBuf (\<lambda>r _.
       let pid = conv r in
       if pid = - 1 then k False
       else if pid = 0 then
         call SYS_swapoff [Val 0] NoBuf (\<lambda>_ _. call SYS_exit [Val 0] NoBuf (\<lambda>_ _. Done (Exited 0)))
       else call SYS_wait4 [Val pid, Ptr, Val 0, Val 0] (WordsBuf [0]) (\<lambda>_ b.
         if WIFSIGNALED (status_after b) then k True else k False))"

section \<open>The timed loop\<close>

text \<open>\<open>struct timespec\<close> as its two words; the clock is \<open>CLOCK_MONOTONIC_RAW\<close>.\<close>

definition timespec_ns :: "uapi_buf \<Rightarrow> u64" where
  "timespec_ns b = (case b of WordsBuf [sec, nsec] \<Rightarrow> sec * 1000000000 + nsec | _ \<Rightarrow> 0)"

definition time_now_ns :: "caller \<Rightarrow> (u64 \<Rightarrow> uapi) \<Rightarrow> uapi" where
  "time_now_ns call k = call SYS_clock_gettime [Val 4, Ptr] (WordsBuf [0, 0]) (\<lambda>_ b. k (timespec_ns b))"

definition timespec32_ns :: "uapi_buf \<Rightarrow> u64" where
  "timespec32_ns b =
     (case b of
        WordsBuf [sec, nsec] \<Rightarrow> scast (ucast sec :: cint) * 1000000000 + scast (ucast nsec :: cint)
      | _ \<Rightarrow> 0)"

definition clock_req :: "build \<Rightarrow> uapi_buf req" where
  "clock_req b =
     (case b of
        LP64 \<Rightarrow> Req SYS_clock_gettime [Val 4, Ptr] (WordsBuf [0, 0])
      | ARM32 \<Rightarrow> Req SYS_clock_gettime32 [Val 1, Ptr] (WordsBuf [0, 0]))"

definition clock_ns :: "build \<Rightarrow> uapi_buf \<Rightarrow> u64" where
  "clock_ns b = (case b of LP64 \<Rightarrow> timespec_ns | ARM32 \<Rightarrow> timespec32_ns)"

definition bench_now :: "build \<Rightarrow> (u64 \<Rightarrow> uapi) \<Rightarrow> uapi" where
  "bench_now b k = sys (req_no (clock_req b)) (req_args (clock_req b)) (req_buf (clock_req b)) (\<lambda>_ buf. k (clock_ns b buf))"

text \<open>A benchmarked call; a successful \<open>execve\<close> would not come back.\<close>

definition bench_call :: "caller \<Rightarrow> uapi_buf req \<Rightarrow> uapi \<Rightarrow> uapi" where
  "bench_call call q k =
     call (req_no q) (req_args q) (req_buf q) (\<lambda>r _. if req_no q = SYS_execve \<and> r = 0 then Done Replaced else k)"

function bench_loop :: "caller \<Rightarrow> nat \<Rightarrow> uapi_buf req \<Rightarrow> nat \<Rightarrow> uapi \<Rightarrow> uapi" where
  "bench_loop call n q i k =
     bench_call call q (if i + 1 < n then bench_loop call n q (i + 1) k else k)"
  by pat_completeness auto

termination by (relation "measure (\<lambda>(_, n, _, i, _). n - i)") auto

declare bench_loop.simps [simp del]

definition strlen_text :: "string \<Rightarrow> string" where
  "strlen_text buf = takeWhile (\<lambda>c. c \<noteq> char_of (0 :: nat)) buf"

text \<open>
  \<open>run_bench\<close> patches the seven digits of \<open>result\<close> in place; the continuation gets the buffer.
\<close>

definition run_bench :: "build \<Rightarrow> nat \<Rightarrow> uapi_buf req \<Rightarrow> string \<Rightarrow> string \<Rightarrow> (string \<Rightarrow> uapi) \<Rightarrow> uapi" where
  "run_bench b n q templ result k =
     bench_now b (\<lambda>t0.
       bench_loop sys n q 0
         (bench_now b (\<lambda>t1.
           print_out (strlen_text templ)
             (case long_to_str (to_unsigned_long b ((t1 - t0) div of_nat n)) 7 (tl result) of
                None \<Rightarrow> Done Faulted
              | Some ds \<Rightarrow>
                  (let result = hd result # ds
                   in print_out (strlen_text result) (k result))))))"

section \<open>The freestanding benchmarks\<close>

definition AT_FDCWD :: clong where "AT_FDCWD = - 100"

definition path_req :: "sysno \<Rightarrow> string option \<Rightarrow> uapi_buf req" where
  "path_req n path =
     (let (p, b) = (case path of None \<Rightarrow> (Val 0, NoBuf) | Some s \<Rightarrow> (Ptr, TextBuf s))
      in case n of
           SYS_newfstatat \<Rightarrow> Req n [Val AT_FDCWD, p, Ptr, Val 0] b
         | SYS_execve \<Rightarrow> Req n [p, Val 0, Val 0] b
         | SYS_faccessat2 \<Rightarrow> Req n [Val AT_FDCWD, p, Val 0, Val 0] b
         | _ \<Rightarrow> Req n [Val AT_FDCWD, p, Val 0] b)"

definition setresuid_req :: "uapi_buf req" where
  "setresuid_req = Req SYS_setresuid [Val 10000, Val 10000, Val 10000] NoBuf"

definition setresuid16_req :: "uapi_buf req" where
  "setresuid16_req = Req SYS_setresuid16 [Val 10000, Val 10000, Val 10000] NoBuf"

text \<open>The four paths: none, /dev/null, a near miss of su, and the same string from its fourth byte.\<close>

definition bench_tests :: "string option list" where
  "bench_tests = [None, Some ''/dev/null'', Some ''/system/bin/su_'', Some (drop 3 ''/system/bin/su_'')]"

definition newfstatat_template :: string where "newfstatat_template = ''[1] newfstatat:'' @ tab @ '' ''"
definition faccessat_template :: string where "faccessat_template = ''[1] faccessat:'' @ tab @ '' ''"
definition faccessat2_template :: string where "faccessat2_template = ''[1] faccessat2:'' @ tab"
definition execve_template :: string where "execve_template = ''[1] execve:'' @ tab @ '' ''"
definition setresuid_template :: string where "setresuid_template = ''[ ] setresuid:'' @ tab @ '' ''"
definition setresuid16_template :: string where "setresuid16_template = ''[ ] setresuid16: ''"
definition result_template :: string where "result_template = ''(0000000 ns avg)'' @ newline"

definition numbered :: "nat \<Rightarrow> string \<Rightarrow> string" where
  "numbered j t = t[1 := char_of (49 + j)]"

text \<open>One pass of the loop runs the benchmarks \<open>kinds\<close> on the path of test \<open>j\<close>.\<close>

fun run_kinds :: "build \<Rightarrow> nat \<Rightarrow> nat \<Rightarrow> string option \<Rightarrow> (sysno \<times> string) list \<Rightarrow> string \<Rightarrow> (string \<Rightarrow> uapi) \<Rightarrow> uapi" where
  "run_kinds b n j path [] result k = k result"
| "run_kinds b n j path ((no, templ) # kinds) result k =
     run_bench b n (path_req no path) (numbered j templ) result (\<lambda>result. run_kinds b n j path kinds result k)"

fun run_tests :: "build \<Rightarrow> nat \<Rightarrow> (sysno \<times> string) list \<Rightarrow> nat \<Rightarrow> string option list \<Rightarrow> string \<Rightarrow> uapi" where
  "run_tests b n kinds j [] result = sys_exit 0"
| "run_tests b n kinds j (path # paths) result =
     run_kinds b n j path kinds result (\<lambda>result. print_out newline (run_tests b n kinds (j + 1) paths result))"

definition su_found :: string where "su_found = ''[+] /system/bin/su found! sucompat is active.'' @ newline"
definition su_not_found :: string where "su_not_found = ''[-] /system/bin/su not found! sucompat is disabled.'' @ newline"
definition seccomp_enabled :: string where "seccomp_enabled = ''[+] seccomp enabled'' @ newline"
definition seccomp_disabled :: string where "seccomp_disabled = ''[-] seccomp disabled'' @ newline"

definition extra_lines :: string where
  "extra_lines = ''[!] note:'' @ newline @ ''[1] NULL'' @ newline @ ''[2] /dev/null'' @ newline @
     ''[3] /system/bin/su_'' @ newline @ ''[4] *unaligned*'' @ newline @ ''[*] Lower is better'' @ newline"

text \<open>The benchmark that only the ARM build has.\<close>

definition arm_bench :: "build \<Rightarrow> nat \<Rightarrow> string \<Rightarrow> (string \<Rightarrow> uapi) \<Rightarrow> uapi" where
  "arm_bench b n result k =
     (case b of LP64 \<Rightarrow> k result | ARM32 \<Rightarrow> run_bench b n setresuid16_req setresuid16_template result k)"

definition bench_body :: "build \<Rightarrow> nat \<Rightarrow> (sysno \<times> string) list \<Rightarrow> uapi" where
  "bench_body b n kinds =
     check_seccomp sys (long_result b) (\<lambda>is_seccomp_enabled.
       sys SYS_sched_setaffinity [Val 0, Val 128, Ptr] (WordsBuf (1 # replicate 15 0)) (\<lambda>_ _.
       sys SYS_setpriority [Val 0, Val 0, Val (- 20)] NoBuf (\<lambda>_ _.
         print_out ''[+] run ''
           (case long_to_str (of_nat n) n_iteration_digits (replicate n_iteration_digits CHR ''?'') of
              None \<Rightarrow> Done Faulted
            | Some iter_buf \<Rightarrow>
                print_out iter_buf (print_out ('' iterations per syscall...'' @ newline)
                  (sys SYS_faccessat [Val AT_FDCWD, Ptr, Val 0] (TextBuf ''/system/bin/su'') (\<lambda>r _.
                    print_out (if long_result b r = 0 then su_found else su_not_found)
                      (print_out (if is_seccomp_enabled then seccomp_enabled else seccomp_disabled)
                        (print_out extra_lines
                          (print_out newline
                            (arm_bench b n result_template (\<lambda>result.
                              run_bench b n setresuid_req setresuid_template result (\<lambda>result.
                                print_out newline (run_tests b n kinds 0 bench_tests result))))))))))))))"

definition bench_main :: "build \<Rightarrow> uapi" where
  "bench_main b = bench_body b n_iterations
     [(SYS_newfstatat, newfstatat_template), (SYS_faccessat, faccessat_template), (SYS_execve, execve_template)]"

definition bench_faccessat2_main :: "build \<Rightarrow> uapi" where
  "bench_faccessat2_main b = bench_body b n_iterations
     [(SYS_faccessat, faccessat_template), (SYS_faccessat2, faccessat2_template)]"

section \<open>The C library benchmark\<close>

definition libc_bench :: "nat \<Rightarrow> uapi_buf req \<Rightarrow> string \<Rightarrow> uapi \<Rightarrow> uapi" where
  "libc_bench n q label k =
     time_now_ns libc_syscall (\<lambda>t0.
       bench_loop libc_syscall n q 0
         (time_now_ns libc_syscall (\<lambda>t1.
           puts (label @ tab @ '' ('' @ fmt_lu ((t1 - t0) div of_nat n) @ '' ns avg)'' @ newline) k)))"

definition libc_path_benches :: "nat \<Rightarrow> string \<Rightarrow> string option \<Rightarrow> uapi \<Rightarrow> uapi" where
  "libc_path_benches n tag path k =
     libc_bench n (path_req SYS_newfstatat path) (tag @ '' newfstatat:'')
       (libc_bench n (path_req SYS_faccessat path) (tag @ '' faccessat:'')
         (libc_bench n (path_req SYS_execve path) (tag @ '' execve:'') k))"

definition libc_bench_main :: uapi where
  "libc_bench_main =
     check_seccomp libc_syscall to_pid (\<lambda>is_seccomp_enabled.
       libc_syscall SYS_sched_setaffinity [Val 0, Val 128, Ptr] (WordsBuf (1 # replicate 15 0)) (\<lambda>_ _.
         puts (''[+] run '' @ show_base 10 n_iterations @ '' iterations per syscall...'' @ newline)
           (libc_syscall SYS_newfstatat [Val AT_FDCWD, Ptr, Ptr, Val 0] (TextBuf ''/system/bin/su'') (\<lambda>r _.
             puts (if r = 0 then su_found else su_not_found)
               (puts (if is_seccomp_enabled then seccomp_enabled else seccomp_disabled)
                 (puts (''[!] note:'' @ newline) (puts (''[1] NULL'' @ newline) (puts (''[2] /dev/null'' @ newline)
                   (puts (''[3] /system/bin/su_'' @ newline) (puts (''[*] Lower is better'' @ newline)
                     (libc_path_benches n_iterations ''[1]'' None
                       (libc_path_benches n_iterations ''[2]'' (Some ''/dev/null'')
                         (libc_path_benches n_iterations ''[3]'' (Some ''/system/bin/su_'') (sys_exit 0))))))))))))))"

section \<open>The digits written\<close>

lemma digit_at_char: "digit_at number = digit_char (unat number mod 10)"
proof -
  have "unat number mod 10 < 10" by simp
  then have "unat (48 + number mod 10) = 48 + unat number mod 10"
    by (subst unat_add_lem [THEN iffD1]) (simp_all add: unat_mod)
  then have "digit_at number = char_of (48 + unat number mod 10)"
    using \<open>unat number mod 10 < 10\<close> by (simp add: digit_at_def unsigned_ucast_eq take_bit_nat_eq_self)
  moreover have "char_of (48 + d) = digit_char d" if "d < 10" for d :: nat
  proof -
    have "d < 16" using that by simp
    then show ?thesis
      using that unfolding less_sixteen_cases
      by (elim disjE) (simp_all add: digit_char_def char_of_def bit_Suc_0_iff)
  qed
  ultimately show ?thesis by simp
qed

lemma long_to_str_padded:
  "0 < len \<Longrightarrow> len \<le> length buf \<Longrightarrow>
     long_to_str number len buf = Some (map digit_char (padded len (unat number)) @ drop len buf)"
proof (induction len arbitrary: number buf)
  case (Suc len)
  show ?case
  proof (cases "len = 0")
    case True
    then show ?thesis
      using Suc.prems by (cases buf) (simp_all add: digit_at_char)
  next
    case False
    let ?buf = "buf[len := digit_at number]"
    have "long_to_str (number div 10) len ?buf =
        Some (map digit_char (padded len (unat (number div 10))) @ drop len ?buf)"
      using False Suc.prems by (intro Suc.IH) simp_all
    moreover have "drop len ?buf = digit_at number # drop (Suc len) buf"
      using Suc.prems by (simp add: drop_update_swap flip: Cons_nth_drop_Suc)
    moreover have "unat (number div 10) = unat number div 10" by (simp add: unat_div)
    ultimately show ?thesis
      using False Suc.prems by (simp add: digit_at_char)
  qed
qed simp

interpretation lts: decimal_writer long_to_str digit_char "char_digit 10"
  by unfold_locales (simp_all add: long_to_str_padded)

text \<open>
  C35: for a positive length within the buffer \<open>long_to_str\<close> overwrites exactly that many characters,
  and they read back as the number modulo the power of ten; a length of 0 or beyond the buffer
  writes outside it.
\<close>

theorem long_to_str_read_back:
  "if 0 < len \<and> len \<le> length buf
   then \<exists>ds. long_to_str number len buf = Some (ds @ drop len buf) \<and> length ds = len \<and>
          read_base 10 ds = Some (unat number mod 10 ^ len)
   else long_to_str number len buf = None"
proof (cases "0 < len \<and> len \<le> length buf")
  case True
  then obtain ds where "long_to_str number len buf = Some (ds @ drop len buf)" "length ds = len"
    "map_option (horner 10) (those (map (char_digit 10) ds)) = Some (unat number mod 10 ^ len)"
    using lts.read_back by blast
  with True show ?thesis by (auto simp: read_base_def)
next
  case False
  then show ?thesis
  proof (induction len arbitrary: number buf)
    case (Suc len)
    then show ?case by (cases len) (auto simp: Let_def Suc_le_eq)
  qed simp
qed

section \<open>The timed loop\<close>

definition is_caller :: "caller \<Rightarrow> bool" where
  "is_caller call \<longleftrightarrow> call = sys \<or> call = libc_syscall"

lemma bench_loop_run:
  assumes "is_caller call" and "req_no q \<noteq> SYS_execve"
  shows "\<exists>reps k'. length reps = max 1 (n - i) \<and>
    run K (bench_loop call n q i p) k = (fst (run K p k'), map (Called q) reps @ snd (run K p k'))"
proof (induction "n - i" arbitrary: i k)
  case 0
  obtain r b k' where K: "K k q = ((r, b), k')" by (metis prod.collapse)
  have q: "Req (req_no q) (req_args q) (req_buf q) = q" by simp
  have "run K (bench_loop call n q i p) k = (fst (run K p k'), map (Called q) [(r, b)] @ snd (run K p k'))"
    using 0 assms K by (subst bench_loop.simps) (auto simp: bench_call_def is_caller_def q apsnd_def map_prod_def split: prod.splits)
  then show ?case using 0 by (intro exI [of _ "[(r, b)]"]) auto
next
  case (Suc d)
  obtain r b k1 where K: "K k q = ((r, b), k1)" by (metis prod.collapse)
  have q: "Req (req_no q) (req_args q) (req_buf q) = q" by simp
  show ?case
  proof (cases "i + 1 < n")
    case False
    have "run K (bench_loop call n q i p) k = (fst (run K p k1), map (Called q) [(r, b)] @ snd (run K p k1))"
      using False assms K by (subst bench_loop.simps) (auto simp: bench_call_def is_caller_def q apsnd_def map_prod_def split: prod.splits)
    then show ?thesis using False Suc by (intro exI [of _ "[(r, b)]"]) auto
  next
    case True
    have "d = n - (i + 1)" using Suc.hyps(2) by simp
    from Suc.hyps(1) [OF this, of k1] obtain reps k' where "length reps = max 1 (n - (i + 1))"
      "run K (bench_loop call n q (i + 1) p) k1 = (fst (run K p k'), map (Called q) reps @ snd (run K p k'))"
      by blast
    moreover have "run K (bench_loop call n q i p) k =
        apsnd ((#) (Called q (r, b))) (run K (bench_loop call n q (i + 1) p) k1)"
      using True assms K by (subst bench_loop.simps) (auto simp: bench_call_def is_caller_def q)
    ultimately show ?thesis using True by (intro exI [of _ "(r, b) # reps"] exI [of _ k']) auto
  qed
qed

definition write_req :: "string \<Rightarrow> uapi_buf req" where
  "write_req t = Req SYS_write [Val 1, Ptr, Val (of_nat (length t))] (TextBuf t)"

lemma run_bench_now:
  "run K (bench_now b f) k =
    (case K k (clock_req b) of ((r, buf), k') \<Rightarrow> apsnd ((#) (Called (clock_req b) (r, buf))) (run K (f (clock_ns b buf)) k'))"
  by (simp add: bench_now_def)

lemma run_print_out:
  "run K (print_out t p) k = (case K k (write_req t) of (r, k') \<Rightarrow> apsnd ((#) (Called (write_req t) r)) (run K p k'))"
  by (simp add: print_out_def write_str_def write_req_def split: prod.splits)

definition frame :: "string \<Rightarrow> string" where
  "frame ds = ''('' @ ds @ '' ns avg)'' @ newline"

lemma strlen_frame:
  assumes "char_of (0 :: nat) \<notin> set ds"
  shows "strlen_text (frame ds) = frame ds"
proof -
  have "char_of (0 :: nat) \<notin> set (frame ds)"
    using assms by (auto simp: frame_def newline_def char_of_def bit_0)
  then show ?thesis unfolding strlen_text_def by (metis (mono_tags, lifting) takeWhile_eq_all_conv)
qed

lemma padded_chars: "char_of (0 :: nat) \<notin> set (map digit_char (padded len n))"
proof
  assume "char_of (0 :: nat) \<in> set (map digit_char (padded len n))"
  then obtain d where "d < 10" "digit_char d = char_of (0 :: nat)" using padded_bound by fastforce
  then have "char_digit 10 (char_of (0 :: nat)) = Some d" using char_digit_digit_char [of d 10] by simp
  then show False by (simp add: char_digit_def)
qed

lemma patch_frame:
  assumes "length old = 7"
  shows "long_to_str v 7 (tl (frame old)) = Some (tl (frame (map digit_char (padded 7 (unat v)))))"
    and "hd (frame old) = CHR ''(''"
proof -
  have "drop 7 (tl (frame old)) = '' ns avg)'' @ newline" "7 \<le> length (tl (frame old))"
    using assms by (simp_all add: frame_def)
  then show "long_to_str v 7 (tl (frame old)) = Some (tl (frame (map digit_char (padded 7 (unat v)))))"
    using long_to_str_padded [of 7 "tl (frame old)" v] by (simp add: frame_def)
qed (simp add: frame_def)

text \<open>
  C31: whatever the kernel answers, \<open>run_bench\<close> reads the clock, makes exactly \<open>n\<close> benchmarked
  calls, reads the clock again and prints the label and the result line, whose frame it keeps and
  whose seven digits are the average (its low 32 bits on ARM) modulo ten million; it then continues with that line.
\<close>

theorem run_bench_trace:
  assumes "req_no q \<noteq> SYS_execve" and "0 < n" and "length old = 7"
  shows "\<exists>c0 reps c1 w1 w2 k'.
    let avg = to_unsigned_long b ((clock_ns b (snd c1) - clock_ns b (snd c0)) div of_nat n);
        line = frame (map digit_char (padded 7 (unat avg)));
        (out, tr) = run K (p line) k'
    in length reps = n \<and>
       run K (run_bench b n q templ (frame old) p) k =
         (out, Called (clock_req b) c0 # map (Called q) reps @
               [Called (clock_req b) c1, Called (write_req (strlen_text templ)) w1, Called (write_req line) w2] @ tr)"
proof -
  obtain r0 b0 k0 where c0: "K k (clock_req b) = ((r0, b0), k0)" by (metis prod.collapse)
  define rest where "rest = (\<lambda>t1. print_out (strlen_text templ)
             (case long_to_str (to_unsigned_long b ((t1 - clock_ns b b0) div of_nat n)) 7 (tl (frame old)) of
                None \<Rightarrow> Done Faulted
              | Some ds \<Rightarrow> (let result = hd (frame old) # ds in print_out (strlen_text result) (p result))))"
  obtain reps k1 where reps: "length reps = max 1 n"
    "run K (bench_loop sys n q 0 (bench_now b rest)) k0 =
       (fst (run K (bench_now b rest) k1), map (Called q) reps @ snd (run K (bench_now b rest) k1))"
    using bench_loop_run [of sys q n 0 K "bench_now b rest" k0] assms(1) by (auto simp: is_caller_def)
  obtain r1 b1 k2 where c1: "K k1 (clock_req b) = ((r1, b1), k2)" by (metis prod.collapse)
  define avg where "avg = to_unsigned_long b ((clock_ns b b1 - clock_ns b b0) div of_nat n)"
  define line where "line = frame (map digit_char (padded 7 (unat avg)))"
  have "rest (clock_ns b b1) = print_out (strlen_text templ) (print_out line (p line))"
  proof -
    have "CHR ''('' # tl line = line" by (simp add: line_def frame_def)
    moreover have "strlen_text line = line" unfolding line_def by (rule strlen_frame [OF padded_chars])
    ultimately show ?thesis
      using patch_frame(1) [OF assms(3), of avg] patch_frame(2) [OF assms(3)]
      by (simp add: rest_def Let_def flip: avg_def line_def)
  qed
  moreover obtain w1 k3 where w1: "K k2 (write_req (strlen_text templ)) = (w1, k3)" by fastforce
  moreover obtain w2 k4 where w2: "K k3 (write_req line) = (w2, k4)" by fastforce
  ultimately have "run K (bench_now b rest) k1 = (fst (run K (p line) k4),
      [Called (clock_req b) (r1, b1), Called (write_req (strlen_text templ)) w1, Called (write_req line) w2] @ snd (run K (p line) k4))"
    using c1 by (simp add: run_bench_now run_print_out apsnd_def map_prod_def split: prod.splits)
  moreover have "run K (run_bench b n q templ (frame old) p) k =
      apsnd ((#) (Called (clock_req b) (r0, b0))) (run K (bench_loop sys n q 0 (bench_now b rest)) k0)"
    using c0 by (simp add: run_bench_def run_bench_now rest_def)
  ultimately show ?thesis
    using reps assms(2)
    by (intro exI [of _ "(r0, b0)"] exI [of _ reps] exI [of _ "(r1, b1)"] exI [of _ w1] exI [of _ w2] exI [of _ k4])
       (simp add: Let_def case_prod_unfold flip: avg_def line_def)
qed


text \<open>One call, a label and a line, on a kernel that answers 5 s and 5 s + 1234 ns.\<close>

lemma run_bench_trace_witness:
  "\<exists>c0 reps c1 w1 w2 k'.
    let avg = to_unsigned_long LP64 ((clock_ns LP64 (snd c1) - clock_ns LP64 (snd c0)) div of_nat 1);
        line = frame (map digit_char (padded 7 (unat avg)));
        (out, tr) = run script (sys_exit 0) k'
    in length reps = 1 \<and>
       run script (run_bench LP64 1 setresuid_req setresuid_template (frame ''0000000'') (\<lambda>_. sys_exit 0))
           [(0, WordsBuf [5, 0]), (0, NoBuf), (0, WordsBuf [5, 1234])] =
         (out, Called (clock_req LP64) c0 # map (Called setresuid_req) reps @
               [Called (clock_req LP64) c1, Called (write_req (strlen_text setresuid_template)) w1, Called (write_req line) w2] @ tr)"
  using run_bench_trace [where b = LP64 and q = setresuid_req and n = 1 and old = "''0000000''" and K = script and
      templ = setresuid_template and p = "\<lambda>_. sys_exit 0" and
      k = "[(0, WordsBuf [5, 0]), (0, NoBuf), (0, WordsBuf [5, 1234])]"]
  by (simp add: setresuid_req_def)

text \<open>
  The two builds read the same time from a clock below 2 to the 31 seconds, and keep the same average
  below 2 to the 32 nanoseconds; outside these bounds the ARM build shows another number.
\<close>

lemma scast_ucast_small:
  assumes "unat w < 2 ^ 31"
  shows "scast (ucast w :: cint) = (w :: clong)"
  unfolding scast_eq sint_ucast_small [OF assms] by simp

lemma builds_agree:
  assumes "unat sec < 2 ^ 31" and "unat nsec < 2 ^ 31" and "unat v < 2 ^ 32"
  shows "clock_ns ARM32 (WordsBuf [sec, nsec]) = clock_ns LP64 (WordsBuf [sec, nsec])"
    and "to_unsigned_long ARM32 v = to_unsigned_long LP64 v"
proof -
  show "clock_ns ARM32 (WordsBuf [sec, nsec]) = clock_ns LP64 (WordsBuf [sec, nsec])"
    using assms(1,2) by (simp add: clock_ns_def timespec_ns_def timespec32_ns_def scast_ucast_small)
  show "to_unsigned_long ARM32 v = to_unsigned_long LP64 v"
    using assms(3) by (simp add: to_unsigned_long_def word_unat_eq_iff unsigned_take_bit_eq take_bit_nat_eq_self)
qed

lemma builds_differ:
  "clock_ns ARM32 (WordsBuf [0x80000000, 0]) \<noteq> clock_ns LP64 (WordsBuf [0x80000000, 0])"
  "to_unsigned_long ARM32 0x100000000 \<noteq> to_unsigned_long LP64 0x100000000"
  by code_simp+

section \<open>Counting calls\<close>

text \<open>The number of calls by number in a trace, and a logic that follows only that count.\<close>

definition bump :: "sysno \<Rightarrow> nat \<Rightarrow> (sysno \<Rightarrow> nat) \<Rightarrow> sysno \<Rightarrow> nat" where
  "bump no n c = c(no := c no + n)"

fun calls :: "'b event list \<Rightarrow> sysno \<Rightarrow> nat" where
  "calls [] = (\<lambda>_. 0)"
| "calls (Printed t # tr) = calls tr"
| "calls (Called q r # tr) = bump (req_no q) 1 (calls tr)"

lemma bump_apply: "bump no n c no' = (if no' = no then c no' + n else c no')"
  by (simp add: bump_def)

lemma bump_twice: "bump no m (bump no n c) = bump no (n + m) c"
  by (simp add: bump_def fun_eq_iff)

lemma bump_swap: "bump no m (bump no' n c) = bump no' n (bump no m c)"
  by (auto simp: bump_def fun_eq_iff)

lemma calls_Called: "calls (h @ [Called q r]) = bump (req_no q) 1 (calls h)"
  by (induction h rule: calls.induct) (simp_all, rule bump_swap)

lemma calls_Printed: "calls (h @ [Printed t]) = calls h"
  by (induction h rule: calls.induct) simp_all

definition counted :: "'b prog \<Rightarrow> (sysno \<Rightarrow> nat) \<Rightarrow> (outcome \<Rightarrow> (sysno \<Rightarrow> nat) \<Rightarrow> bool) \<Rightarrow> bool" where
  "counted p c Q \<longleftrightarrow> (\<forall>h. calls h = c \<longrightarrow> verified p h (\<lambda>x tr. Q x (calls tr)))"

lemma countedD: "counted p (\<lambda>_. 0) Q \<Longrightarrow> Q (outcome_of K p k) (calls (trace_of K p k))"
  using verifiedI [of p "\<lambda>x tr. Q x (calls tr)"] by (simp add: counted_def)

named_theorems counted_rules

lemma counted_Done: "Q x c \<Longrightarrow> counted (Done x) c Q"
  by (simp add: counted_def)

lemma counted_sys [counted_rules]:
  "(\<And>r b'. counted (f r b') (bump n 1 c) Q) \<Longrightarrow> counted (sys n as b f) c Q"
  by (simp add: counted_def calls_Called)

lemma counted_libc [counted_rules]:
  "(\<And>r b'. counted (f (libc_result r) b') (bump n 1 c) Q) \<Longrightarrow> counted (libc_syscall n as b f) c Q"
  by (simp add: counted_def calls_Called)

lemma counted_puts [counted_rules]: "counted p c Q \<Longrightarrow> counted (puts t p) c Q"
  by (simp add: counted_def calls_Printed)

lemma counted_print_out [counted_rules]: "counted p (bump SYS_write 1 c) Q \<Longrightarrow> counted (print_out t p) c Q"
  by (simp add: print_out_def write_str_def counted_sys)

lemma counted_caller:
  "is_caller call \<Longrightarrow> (\<And>r b'. counted (f r b') (bump n 1 c) Q) \<Longrightarrow> counted (call n as b f) c Q"
  by (auto simp: is_caller_def intro: counted_sys counted_libc)

lemma counted_clock:
  "is_caller call \<Longrightarrow> (\<And>t. counted (f t) (bump SYS_clock_gettime 1 c) Q) \<Longrightarrow> counted (time_now_ns call f) c Q"
  by (simp add: time_now_ns_def counted_caller)

lemma counted_bench_now:
  "(\<And>t. counted (f t) (bump (req_no (clock_req b)) 1 c) Q) \<Longrightarrow> counted (bench_now b f) c Q"
  by (simp add: bench_now_def counted_sys)

lemma counted_bench_call:
  assumes "is_caller call" and "\<And>c. Q Replaced c" and "counted p (bump (req_no q) 1 c) Q"
  shows "counted (bench_call call q p) c Q"
  unfolding bench_call_def by (rule counted_caller [OF assms(1)]) (use assms(2,3) in \<open>simp add: counted_Done\<close>)

lemma counted_bench_loop:
  assumes "is_caller call" and "\<And>c. Q Replaced c"
  shows "i < n \<Longrightarrow> counted p (bump (req_no q) (n - i) c) Q \<Longrightarrow> counted (bench_loop call n q i p) c Q"
proof (induction "n - i" arbitrary: i c)
  case (Suc d)
  show ?case
  proof (cases "i + 1 < n")
    case True
    then have "counted (bench_loop call n q (i + 1) p) (bump (req_no q) 1 c) Q"
      using Suc by (intro Suc.hyps(1)) (simp_all add: bump_twice Suc_diff_Suc)
    with True assms show ?thesis by (subst bench_loop.simps) (simp add: counted_bench_call)
  next
    case False
    with Suc.prems have "n - i = 1" by simp
    with False assms Suc.prems show ?thesis by (subst bench_loop.simps) (simp add: counted_bench_call)
  qed
qed simp


lemma counted_run_bench:
  assumes "\<And>c. Q Replaced c" and "0 < n" and "length old = 7"
    and "\<And>ds c'. length ds = 7 \<Longrightarrow> c' = bump SYS_write 2 (bump (req_no (clock_req b)) 1 (bump (req_no q) n (bump (req_no (clock_req b)) 1 c))) \<Longrightarrow>
           counted (k (frame ds)) c' Q"
  shows "counted (run_bench b n q templ (frame old) k) c Q"
proof -
  have line: "CHR ''('' # tl (frame ds) = frame ds" for ds by (simp add: frame_def)
  show ?thesis
    unfolding run_bench_def
    by (rule counted_bench_now counted_bench_loop counted_print_out
      | (simp add: is_caller_def assms(1-3) patch_frame line Let_def bump_twice)
      | (rule assms(4); simp add: numeral_2_eq_2))+
qed

lemma counted_arm_bench:
  assumes "\<And>c. Q Replaced c" and "0 < n" and "length old = 7"
    and "\<And>ds c'. length ds = 7 \<Longrightarrow>
           (\<And>no. no \<noteq> SYS_write \<Longrightarrow> no \<noteq> req_no (clock_req b) \<Longrightarrow>
              c' no = c no + (if no = SYS_setresuid16 \<and> b = ARM32 then n else 0)) \<Longrightarrow>
           counted (k (frame ds)) c' Q"
  shows "counted (arm_bench b n (frame old) k) c Q"
proof (cases b)
  case ARM32
  show ?thesis
    unfolding ARM32 arm_bench_def build.case
  proof (rule counted_run_bench [where Q = Q], fact, fact, fact)
    fix ds c' assume "length (ds :: string) = 7"
      and c': "c' = bump SYS_write 2 (bump (req_no (clock_req ARM32)) 1
        (bump (req_no setresuid16_req) n (bump (req_no (clock_req ARM32)) 1 c)))"
    then show "counted (k (frame ds)) c' Q"
      by (intro assms(4)) (auto simp: bump_apply ARM32 setresuid16_req_def)
  qed
qed (use assms in \<open>simp add: arm_bench_def\<close>)

lemma counted_run_kinds:
  assumes "\<And>c. Q Replaced c" and "0 < n"
  shows "length old = 7 \<Longrightarrow>
     (\<And>ds c'. length ds = 7 \<Longrightarrow>
        (\<And>no. no \<noteq> SYS_write \<Longrightarrow> no \<noteq> req_no (clock_req b) \<Longrightarrow> c' no = c no + n * count_list (map fst kinds) no) \<Longrightarrow>
        counted (k (frame ds)) c' Q) \<Longrightarrow>
     counted (run_kinds b n j path kinds (frame old) k) c Q"
proof (induction kinds arbitrary: old c)
  case (Cons kt kinds)
  obtain no templ where kt: "kt = (no, templ)" by fastforce
  have no: "req_no (path_req no path) = no" by (cases no) (auto simp: path_req_def split: option.splits)
  show ?case
    unfolding kt run_kinds.simps
  proof (rule counted_run_bench [where Q = Q], fact, fact, fact)
    fix ds c' assume ds: "length (ds :: string) = 7"
      and c': "c' = bump SYS_write 2 (bump (req_no (clock_req b)) 1 (bump (req_no (path_req no path)) n (bump (req_no (clock_req b)) 1 c)))"
    show "counted (run_kinds b n j path kinds (frame ds) k) c' Q"
    proof (rule Cons.IH [OF ds])
      fix es c'' assume "length (es :: string) = 7"
        and "\<And>x. x \<noteq> SYS_write \<Longrightarrow> x \<noteq> req_no (clock_req b) \<Longrightarrow> c'' x = c' x + n * count_list (map fst kinds) x"
      then show "counted (k (frame es)) c'' Q"
        by (intro Cons.prems(2)) (auto simp: c' bump_apply no kt)
    qed
  qed
qed simp

lemma counted_run_tests:
  assumes "\<And>c. Q Replaced c" and "0 < n"
  shows "length old = 7 \<Longrightarrow>
     (\<And>c'. (\<And>no. no \<noteq> SYS_write \<Longrightarrow> no \<noteq> req_no (clock_req b) \<Longrightarrow>
              c' no = c no + length paths * (n * count_list (map fst kinds) no)) \<Longrightarrow> Q (Exited 0) c') \<Longrightarrow>
     counted (run_tests b n kinds j paths (frame old)) c Q"
proof (induction paths arbitrary: old c j)
  case Nil
  then show ?case by (auto simp: sys_exit_def intro!: counted_Done)
next
  case (Cons path paths)
  show ?case
    unfolding run_tests.simps
  proof (rule counted_run_kinds [where Q = Q], fact, fact, fact)
    fix ds c' assume ds: "length (ds :: string) = 7"
      and c': "\<And>no. no \<noteq> SYS_write \<Longrightarrow> no \<noteq> req_no (clock_req b) \<Longrightarrow> c' no = c no + n * count_list (map fst kinds) no"
    show "counted (print_out newline (run_tests b n kinds (j + 1) paths (frame ds))) c' Q"
    proof (rule counted_print_out, rule Cons.IH [OF ds])
      fix c'' assume "\<And>no. no \<noteq> SYS_write \<Longrightarrow> no \<noteq> req_no (clock_req b) \<Longrightarrow>
         c'' no = bump SYS_write 1 c' no + length paths * (n * count_list (map fst kinds) no)"
      then show "Q (Exited 0) c''"
        by (intro Cons.prems(2)) (simp add: bump_apply c')
    qed
  qed
qed


lemma counted_check_seccomp:
  assumes call: "is_caller call"
    and child: "Q (Exited 0) (bump SYS_exit 1 (bump SYS_swapoff 1 (bump SYS_clone 1 (\<lambda>_. 0))))"
    and parent: "\<And>x c. (\<And>no. no \<notin> {SYS_clone, SYS_wait4} \<Longrightarrow> c no = 0) \<Longrightarrow> counted (k x) c Q"
  shows "counted (check_seccomp call conv k) (\<lambda>_. 0) Q"
proof -
  have "counted (k x) (bump SYS_clone 1 (\<lambda>_. 0)) Q" for x by (rule parent) (simp add: bump_apply)
  moreover have "counted (k x) (bump SYS_wait4 1 (bump SYS_clone 1 (\<lambda>_. 0))) Q" for x
    by (rule parent) (simp add: bump_apply)
  moreover have "counted (call SYS_swapoff [Val 0] NoBuf (\<lambda>_ _. call SYS_exit [Val 0] NoBuf (\<lambda>_ _. Done (Exited 0))))
      (bump SYS_clone 1 (\<lambda>_. 0)) Q"
    by (intro counted_caller [OF call] counted_Done child)
  ultimately show ?thesis
    unfolding check_seccomp_def Let_def
    by (intro counted_caller [OF call]) (auto intro!: counted_caller [OF call])
qed

lemma frame_result: "result_template = frame ''0000000''"
  by (simp add: result_template_def frame_def)

lemma counted_bench_body:
  assumes "0 < n" and "\<And>c. Q Replaced c"
    and "\<And>c. c SYS_exit = 1 \<Longrightarrow> c SYS_write = 0 \<Longrightarrow> Q (Exited 0) c"
    and "\<And>c. (\<And>no. no \<in> {SYS_setresuid, SYS_setresuid16, SYS_newfstatat, SYS_faccessat, SYS_faccessat2, SYS_execve} \<Longrightarrow>
            c no = (if no = SYS_faccessat then 1 else 0) + (if no = SYS_setresuid then n else 0) +
              (if no = SYS_setresuid16 \<and> b = ARM32 then n else 0) +
              4 * (n * count_list (map fst kinds) no)) \<Longrightarrow> Q (Exited 0) c"
  shows "counted (bench_body b n kinds) (\<lambda>_. 0) Q"
proof -
  obtain ds where ds: "long_to_str (of_nat n) n_iteration_digits (replicate n_iteration_digits CHR ''?'') = Some ds"
    using long_to_str_padded [of n_iteration_digits "replicate n_iteration_digits CHR ''?''" "of_nat n"]
    by (simp add: n_iteration_digits_def)
  have req: "req_no setresuid_req = SYS_setresuid" "req_no setresuid16_req = SYS_setresuid16"
    by (simp_all add: setresuid_req_def setresuid16_req_def)
  have "no \<noteq> req_no (clock_req b)" if "no \<in> {SYS_setresuid, SYS_setresuid16, SYS_newfstatat, SYS_faccessat, SYS_faccessat2, SYS_execve}" for no
    using that by (cases b) (auto simp: clock_req_def)
  then have clock: "SYS_setresuid \<noteq> req_no (clock_req b)" "SYS_setresuid16 \<noteq> req_no (clock_req b)"
    "SYS_newfstatat \<noteq> req_no (clock_req b)" "SYS_faccessat \<noteq> req_no (clock_req b)"
    "SYS_faccessat2 \<noteq> req_no (clock_req b)" "SYS_execve \<noteq> req_no (clock_req b)"
    by simp_all
  have tests: "length bench_tests = 4" by (simp add: bench_tests_def)
  show ?thesis
    unfolding bench_body_def ds option.simps frame_result
  proof (intro counted_check_seccomp counted_sys counted_print_out counted_arm_bench [where Q = Q] counted_run_bench [where Q = Q] assms(1,2) counted_run_tests [where Q = Q])
    show "is_caller sys" by (simp add: is_caller_def)
    show "Q (Exited 0) (bump SYS_exit 1 (bump SYS_swapoff 1 (bump SYS_clone 1 (\<lambda>_. 0))))"
      by (rule assms(3)) (simp_all add: bump_apply)
  qed (simp_all add: req tests, rule assms(4), elim insertE emptyE, simp_all add: bump_apply clock)
qed

lemma counted_libc_bench:
  assumes "\<And>c. Q Replaced c" and "0 < n"
    and "counted p (bump SYS_clock_gettime 1 (bump (req_no q) n (bump SYS_clock_gettime 1 c))) Q"
  shows "counted (libc_bench n q label p) c Q"
  unfolding libc_bench_def
  by (intro counted_clock counted_bench_loop counted_puts) (use assms in \<open>simp_all add: is_caller_def\<close>)

lemma counted_libc_paths:
  assumes "\<And>c. Q Replaced c" and "0 < n"
    and "\<And>c'. (\<And>no. no \<noteq> SYS_clock_gettime \<Longrightarrow>
           c' no = c no + n * count_list [SYS_newfstatat, SYS_faccessat, SYS_execve] no) \<Longrightarrow> counted p c' Q"
  shows "counted (libc_path_benches n label path p) c Q"
proof -
  have no: "req_no (path_req no path) = no" if "no \<in> {SYS_newfstatat, SYS_faccessat, SYS_execve}" for no
    using that by (auto simp: path_req_def split: option.splits)
  show ?thesis
    unfolding libc_path_benches_def
    by (intro counted_libc_bench assms(1,2) assms(3)) (simp add: no bump_apply)
qed

lemma counted_libc_bench_main:
  assumes "\<And>c. Q Replaced c"
    and "\<And>c. c SYS_exit = 1 \<Longrightarrow> c SYS_newfstatat = 0 \<Longrightarrow> Q (Exited 0) c"
    and "\<And>c. (\<And>no. no \<in> {SYS_newfstatat, SYS_faccessat, SYS_execve} \<Longrightarrow>
            c no = (if no = SYS_newfstatat then 1 else 0) + 3 * n_iterations) \<Longrightarrow> Q (Exited 0) c"
  shows "counted libc_bench_main (\<lambda>_. 0) Q"
proof -
  have pos: "0 < n_iterations" by (simp add: n_iterations_def)
  show ?thesis
    unfolding libc_bench_main_def
  proof (intro counted_check_seccomp counted_libc counted_puts counted_libc_paths [where Q = Q] assms(1) pos)
    show "is_caller libc_syscall" by (simp add: is_caller_def)
    show "Q (Exited 0) (bump SYS_exit 1 (bump SYS_swapoff 1 (bump SYS_clone 1 (\<lambda>_. 0))))"
      by (rule assms(2)) (simp_all add: bump_apply)
  qed (unfold sys_exit_def, rule counted_Done, rule assms(3), elim insertE emptyE, simp_all add: bump_apply)
qed

text \<open>
  C17: whatever the kernel answers, each benchmark, in both builds, ends with status 0 or in a program its
  \<open>execve\<close> started, never with a bad access. When it returns from \<open>main\<close> (the other way to status 0
  is the child of the seccomp check, which calls \<open>exit\<close> before anything is measured) it has made
  every benchmarked call exactly a million times for each path, plus the one probe for su.
\<close>

theorem bench_main_counts:
  "(let x = outcome_of K (bench_main b) k; c = calls (trace_of K (bench_main b) k)
    in x = Replaced \<or> x = Exited 0 \<and> (c SYS_exit = 1 \<and> c SYS_write = 0 \<or>
         c SYS_setresuid = 1000000 \<and> c SYS_setresuid16 = (if b = ARM32 then 1000000 else 0) \<and> c SYS_newfstatat = 4000000 \<and> c SYS_faccessat = 4000001 \<and> c SYS_execve = 4000000)) \<and>
   (let x = outcome_of K (bench_faccessat2_main b) k; c = calls (trace_of K (bench_faccessat2_main b) k)
    in x = Replaced \<or> x = Exited 0 \<and> (c SYS_exit = 1 \<and> c SYS_write = 0 \<or>
         c SYS_setresuid = 1000000 \<and> c SYS_setresuid16 = (if b = ARM32 then 1000000 else 0) \<and> c SYS_faccessat = 4000001 \<and> c SYS_faccessat2 = 4000000 \<and> c SYS_execve = 0)) \<and>
   (let x = outcome_of K libc_bench_main k; c = calls (trace_of K libc_bench_main k)
    in x = Replaced \<or> x = Exited 0 \<and> (c SYS_exit = 1 \<and> c SYS_newfstatat = 0 \<or>
         c SYS_newfstatat = 3000001 \<and> c SYS_faccessat = 3000000 \<and> c SYS_execve = 3000000))"
  unfolding Let_def bench_main_def bench_faccessat2_main_def
  by (intro conjI; rule countedD)
    (rule counted_bench_body counted_libc_bench_main; simp add: n_iterations_def)+

end
