(* ===== verification/BenchFork.thy ===== *)
theory BenchFork
  imports Interleaving SyscallBench "HOL-Library.Sublist"
begin

text \<open>
  The benchmarks as systems of processes: their check for seccomp forks a child that tries
  \<open>swapoff\<close> and ends, while the parent waits for it and then measures.
\<close>

section \<open>The order of calls\<close>

text \<open>
  \<open>conv\<close> is what the program makes of the result of \<open>clone\<close>. The measured calls are everything
  but the calls of the check.
\<close>

datatype bench_phase = Fresh | Waiting clong | Measuring bool | Child | Leaving | Ended

definition measured :: "sysno \<Rightarrow> bool" where
  "measured n \<longleftrightarrow> n \<notin> {SYS_clone, SYS_wait4, SYS_swapoff, SYS_exit}"

definition clone_req :: "uapi_buf req" where
  "clone_req = Req SYS_clone [Val SIGCHLD, Val 0, Val 0, Val 0, Val 0] NoBuf"

fun bench_protocol :: "(clong \<Rightarrow> clong) \<Rightarrow> (bench_phase, uapi_buf) protocol" where
  "bench_protocol conv Fresh q (r, b) =
     (if q = clone_req then Some (if conv r = - 1 then Measuring False else if conv r = 0 then Child else Waiting (conv r)) else None)"
| "bench_protocol conv (Waiting pid) q (r, b) =
     (if q = Req SYS_wait4 [Val pid, Ptr, Val 0, Val 0] (WordsBuf [0]) then Some (Measuring True) else None)"
| "bench_protocol conv (Measuring w) q (r, b) = (if measured (req_no q) then Some (Measuring w) else None)"
| "bench_protocol conv Child q (r, b) = (if q = Req SYS_swapoff [Val 0] NoBuf then Some Leaving else None)"
| "bench_protocol conv Leaving q (r, b) = (if q = Req SYS_exit [Val 0] NoBuf then Some Ended else None)"
| "bench_protocol conv Ended q (r, b) = None"

definition call_result :: "caller \<Rightarrow> (clong \<Rightarrow> clong) \<Rightarrow> bool" where
  "call_result call f \<longleftrightarrow> call = sys \<and> f = id \<or> call = libc_syscall \<and> f = libc_result"

lemma call_resultE:
  assumes "call_result call f"
  obtains "call = sys" "f = id" | "call = libc_syscall" "f = libc_result"
  using assms by (auto simp: call_result_def)

lemma conforms_check_seccomp:
  assumes "call_result call f" and "\<And>x w. conforms (bench_protocol (conv \<circ> f)) (k x) (Measuring w)"
  shows "conforms (bench_protocol (conv \<circ> f)) (check_seccomp call conv k) Fresh"
  using assms(1)
  by (cases rule: call_resultE)
     (use assms(2) in \<open>auto simp: check_seccomp_def clone_req_def Let_def\<close>)

named_theorems quiet_rules

lemma quiet_sys [quiet_rules]:
  "measured n \<Longrightarrow> (\<And>r b'. conforms (bench_protocol c) (f r b') (Measuring w)) \<Longrightarrow>
     conforms (bench_protocol c) (sys n as b f) (Measuring w)"
  by simp

lemma quiet_libc [quiet_rules]:
  "measured n \<Longrightarrow> (\<And>r b'. conforms (bench_protocol c) (f r b') (Measuring w)) \<Longrightarrow>
     conforms (bench_protocol c) (libc_syscall n as b f) (Measuring w)"
  by simp

lemma quiet_puts [quiet_rules]:
  "conforms (bench_protocol c) p (Measuring w) \<Longrightarrow> conforms (bench_protocol c) (puts t p) (Measuring w)"
  by simp

lemma quiet_print_out [quiet_rules]:
  "conforms (bench_protocol c) p (Measuring w) \<Longrightarrow> conforms (bench_protocol c) (print_out t p) (Measuring w)"
  by (simp add: print_out_def write_str_def measured_def)

lemma quiet_exit [quiet_rules]: "conforms (bench_protocol c) (sys_exit n) (Measuring w)"
  by (simp add: sys_exit_def)

lemma quiet_now [quiet_rules]:
  "(\<And>t. conforms (bench_protocol c) (f t) (Measuring w)) \<Longrightarrow> conforms (bench_protocol c) (bench_now b f) (Measuring w)"
  by (cases b) (simp_all add: bench_now_def clock_req_def measured_def)

lemma quiet_clock [quiet_rules]:
  "is_caller call \<Longrightarrow> (\<And>t. conforms (bench_protocol c) (f t) (Measuring w)) \<Longrightarrow>
     conforms (bench_protocol c) (time_now_ns call f) (Measuring w)"
  by (auto simp: is_caller_def time_now_ns_def measured_def)

lemma quiet_loop [quiet_rules]:
  "is_caller call \<Longrightarrow> measured (req_no q) \<Longrightarrow> conforms (bench_protocol c) p (Measuring w) \<Longrightarrow>
     conforms (bench_protocol c) (bench_loop call n q i p) (Measuring w)"
proof (induction call n q i p rule: bench_loop.induct)
  case (1 call n q i p)
  have "conforms (bench_protocol c) (if i + 1 < n then bench_loop call n q (i + 1) p else p) (Measuring w)"
    using 1 by simp
  then show ?case
    using "1.prems" by (subst bench_loop.simps) (auto simp: bench_call_def is_caller_def)
qed

lemma quiet_run_bench [quiet_rules]:
  assumes "measured (req_no q)" and "\<And>result. conforms (bench_protocol c) (k result) (Measuring w)"
  shows "conforms (bench_protocol c) (run_bench b n q templ result k) (Measuring w)"
  unfolding run_bench_def
  by (intro quiet_rules) (use assms in \<open>auto simp: is_caller_def Let_def intro!: quiet_rules split: option.split\<close>)

lemma measured_path [quiet_rules]: "measured n \<Longrightarrow> measured (req_no (path_req n path))"
  by (cases n) (auto simp: path_req_def split: option.splits)

lemma quiet_run_kinds [quiet_rules]:
  "list_all (measured \<circ> fst) kinds \<Longrightarrow> (\<And>result. conforms (bench_protocol c) (k result) (Measuring w)) \<Longrightarrow>
     conforms (bench_protocol c) (run_kinds b n j path kinds result k) (Measuring w)"
  by (induction b n j path kinds result k rule: run_kinds.induct)
     (auto intro!: quiet_run_bench measured_path)

lemma quiet_run_tests [quiet_rules]:
  "list_all (measured \<circ> fst) kinds \<Longrightarrow> conforms (bench_protocol c) (run_tests b n kinds j paths result) (Measuring w)"
  by (induction b n kinds j paths result rule: run_tests.induct) (auto intro!: quiet_rules)

lemma quiet_arm_bench [quiet_rules]:
  "(\<And>result. conforms (bench_protocol c) (k result) (Measuring w)) \<Longrightarrow>
     conforms (bench_protocol c) (arm_bench b n result k) (Measuring w)"
  by (cases b) (auto simp: arm_bench_def setresuid16_req_def measured_def intro!: quiet_run_bench)

lemma measured_calls [quiet_rules]:
  "measured SYS_sched_setaffinity" "measured SYS_setpriority" "measured SYS_faccessat" "measured SYS_faccessat2"
  "measured SYS_newfstatat" "measured SYS_execve" "measured (req_no setresuid_req)"
  by (simp_all add: measured_def setresuid_req_def)

lemma bench_body_conforms:
  assumes "list_all (measured \<circ> fst) kinds"
  shows "conforms (bench_protocol (long_result b)) (bench_body b n kinds) Fresh"
proof -
  obtain buf where "long_to_str (of_nat n) n_iteration_digits (replicate n_iteration_digits CHR ''?'') = Some buf"
    using long_to_str_padded [of n_iteration_digits "replicate n_iteration_digits CHR ''?''" "of_nat n"]
    by (simp add: n_iteration_digits_def)
  then have "conforms (bench_protocol (long_result b \<circ> id)) (bench_body b n kinds) Fresh"
    unfolding bench_body_def
    by (intro conforms_check_seccomp) (auto simp: call_result_def intro!: quiet_rules assms simp del: conforms_sys)
  then show ?thesis by simp
qed

lemma quiet_libc_bench [quiet_rules]:
  "measured (req_no q) \<Longrightarrow> conforms (bench_protocol c) k (Measuring w) \<Longrightarrow>
     conforms (bench_protocol c) (libc_bench n q label k) (Measuring w)"
  unfolding libc_bench_def by (intro quiet_rules) (auto simp: is_caller_def)

lemma libc_bench_main_conforms: "conforms (bench_protocol (to_pid \<circ> libc_result)) libc_bench_main Fresh"
  unfolding libc_bench_main_def libc_path_benches_def
  by (intro conforms_check_seccomp) (auto simp: call_result_def intro!: quiet_rules simp del: conforms_libc)

section \<open>Parent and child\<close>

definition numbers :: "uapi_buf event list \<Rightarrow> sysno list" where
  "numbers tr = [req_no q. Called q r \<leftarrow> tr]"

definition phase_history :: "bench_phase \<Rightarrow> sysno list \<Rightarrow> bool" where
  "phase_history ph ns \<longleftrightarrow>
     (case ph of
        Fresh \<Rightarrow> ns = []
      | Waiting pid \<Rightarrow> ns = [SYS_clone]
      | Measuring w \<Rightarrow> \<exists>ms. list_all measured ms \<and> ns = SYS_clone # (if w then [SYS_wait4] else []) @ ms
      | Child \<Rightarrow> ns = [SYS_clone]
      | Leaving \<Rightarrow> ns = [SYS_clone, SYS_swapoff]
      | Ended \<Rightarrow> ns = [SYS_clone, SYS_swapoff, SYS_exit])"

lemma after_phase_history: "after (bench_protocol c) Fresh tr = Some ph \<Longrightarrow> phase_history ph (numbers tr)"
proof (induction tr arbitrary: ph rule: rev_induct)
  case Nil
  then show ?case by (auto simp: phase_history_def numbers_def)
next
  case (snoc e tr)
  from snoc.prems obtain ph0 where ph0: "after (bench_protocol c) Fresh tr = Some ph0" "after (bench_protocol c) ph0 [e] = Some ph"
    by (auto simp: after_append split: option.splits)
  note IH = snoc.IH [OF ph0(1)]
  show ?case
  proof (cases e)
    case (Called q x)
    obtain r b where x: "x = (r, b)" by fastforce
    have step: "bench_protocol c ph0 q (r, b) = Some ph" using ph0(2) by (auto simp: Called x split: option.splits)
    have ns: "numbers (tr @ [e]) = numbers tr @ [req_no q]" by (simp add: numbers_def Called)
    show ?thesis
    proof (cases ph0)
      case (Measuring w)
      with step have ph: "measured (req_no q)" "ph = Measuring w" by (auto split: if_splits)
      from IH Measuring obtain ms where "list_all measured ms" "numbers tr = SYS_clone # (if w then [SYS_wait4] else []) @ ms"
        by (auto simp: phase_history_def)
      then show ?thesis
        using ph by (auto simp: phase_history_def ns intro!: exI [of _ "ms @ [req_no q]"])
    qed (use IH step in \<open>auto simp: phase_history_def ns clone_req_def intro!: exI [of _ "[]"] split: if_splits\<close>)
  qed (use IH ph0(2) in \<open>simp add: numbers_def\<close>)
qed

text \<open>
  The invariant of a benchmark system: one process anywhere in the protocol, or a parent that waits
  or measures with a child that only tries \<open>swapoff\<close> and leaves.
\<close>

definition in_phase :: "(clong \<Rightarrow> clong) \<Rightarrow> bench_phase set \<Rightarrow> uapi_buf process \<Rightarrow> bool" where
  "in_phase c S x \<longleftrightarrow> (\<exists>ph \<in> S. after (bench_protocol c) Fresh (snd x) = Some ph \<and> conforms (bench_protocol c) (fst x) ph)"

abbreviation parent_phases :: "bench_phase set" where
  "parent_phases \<equiv> insert (Measuring True) (range Waiting)"

abbreviation child_phases :: "bench_phase set" where
  "child_phases \<equiv> {Child, Leaving, Ended}"

definition bench_system :: "(clong \<Rightarrow> clong) \<Rightarrow> uapi_buf process list \<Rightarrow> bool" where
  "bench_system c ps \<longleftrightarrow>
     (\<exists>x. ps = [x] \<and> in_phase c UNIV x) \<or>
     (\<exists>x y. ps = [x, y] \<and> in_phase c parent_phases x \<and> in_phase c child_phases y)"

lemma bench_system_simps [simp]:
  "bench_system c [x] \<longleftrightarrow> in_phase c UNIV x"
  "bench_system c [x, y] \<longleftrightarrow> in_phase c parent_phases x \<and> in_phase c child_phases y"
  by (auto simp: bench_system_def)

lemma in_phase_print: "in_phase c S (Out t p, tr) \<Longrightarrow> in_phase c S (p, tr @ [Printed t])"
  by (auto simp: in_phase_def after_append)

lemma in_phase_call:
  assumes "in_phase c S (Call q f, tr)"
    and "\<And>ph ph'. ph \<in> S \<Longrightarrow> bench_protocol c ph q r = Some ph' \<Longrightarrow> ph' \<in> S'"
  shows "in_phase c S' (f r, tr @ [Called q r])"
proof -
  obtain ph where ph: "ph \<in> S" "after (bench_protocol c) Fresh tr = Some ph" "conforms (bench_protocol c) (Call q f) ph"
    using assms(1) by (auto simp: in_phase_def)
  then obtain ph' where "bench_protocol c ph q r = Some ph'" "conforms (bench_protocol c) (f r) ph'"
    by (cases r) (auto simp: case_option_ex)
  with ph assms(2) show ?thesis by (auto simp: in_phase_def after_append)
qed

lemma phases_closed:
  "ph \<in> parent_phases \<Longrightarrow> bench_protocol c ph q r = Some ph' \<Longrightarrow> ph' \<in> parent_phases"
  "ph \<in> child_phases \<Longrightarrow> bench_protocol c ph q r = Some ph' \<Longrightarrow> ph' \<in> child_phases"
  by (cases ph; cases r; auto split: if_splits)+

lemma in_phase_roles:
  "in_phase c parent_phases (Call q f, tr) \<Longrightarrow> in_phase c parent_phases (f r, tr @ [Called q r])"
  "in_phase c child_phases (Call q f, tr) \<Longrightarrow> in_phase c child_phases (f r, tr @ [Called q r])"
  by (erule in_phase_call, erule (1) phases_closed)+

lemma clone_only_fresh:
  assumes "in_phase c S (Call q f, tr)" and "req_no q = SYS_clone"
  shows "Fresh \<in> S \<and> in_phase c {Fresh} (Call q f, tr)"
proof -
  obtain ph where ph: "ph \<in> S" "after (bench_protocol c) Fresh tr = Some ph" "conforms (bench_protocol c) (Call q f) ph"
    using assms(1) by (auto simp: in_phase_def)
  then obtain ph' where "bench_protocol c ph q (0, NoBuf) = Some ph'" by (auto simp: case_option_ex)
  then have "ph = Fresh" using assms(2) by (cases ph) (auto simp: measured_def split: if_splits)
  with ph show ?thesis by (auto simp: in_phase_def)
qed

definition pid_conversion :: "(clong \<Rightarrow> clong) \<Rightarrow> bool" where
  "pid_conversion c \<longleftrightarrow> c 0 = 0 \<and> (\<forall>r. is_pid r \<longrightarrow> c r = r)"

lemma is_pid_small: "is_pid r \<Longrightarrow> unat r < 2 ^ 31 \<and> r \<noteq> 0 \<and> r \<noteq> - 1 \<and> \<not> r <s 0"
proof -
  assume r: "is_pid r"
  then have "uint r = sint r" 
    by (subst uint_sint) (simp add: take_bit_int_eq_self is_pid_def)
  then have "unat r \<le> 2 ^ 22" using r by (simp add: is_pid_def unat_eq_nat_uint nat_le_iff)
  with r show ?thesis by (auto simp: is_pid_def word_sless_alt)
qed

lemma pid_conversions: "pid_conversion (long_result b)" "pid_conversion (to_pid \<circ> libc_result)"
proof -
  have pid: "to_pid r = r" if "is_pid r" for r
    using is_pid_small [OF that] by (simp add: to_pid_def scast_ucast_small)
  have lib: "libc_result r = r" if "is_pid r" for r
    using is_pid_small [OF that] by (simp add: libc_result_def syscall_gate_errno_def)
  show "pid_conversion (long_result b)"
    by (cases b) (auto simp: pid_conversion_def long_result_def pid to_pid_def [of 0])
  show "pid_conversion (to_pid \<circ> libc_result)"
    by (auto simp: pid_conversion_def pid lib to_pid_def [of 0])
qed

lemma one_process_step:
  assumes "system_step K (k, ps) (k', ps')" and "ps = [x]" and "in_phase c UNIV x" and "pid_conversion c"
  shows "bench_system c ps'"
proof -
  from assms(1) show ?thesis
  proof cases
    case (print i t p tr)
    with assms(2,3) show ?thesis by (auto simp: bench_system_def intro!: in_phase_print)
  next
    case (trap i q f tr r b)
    with assms(2,3) show ?thesis by (auto simp: bench_system_def intro!: in_phase_call [where S = UNIV])
  next
    case (fork i q f tr r b)
    with assms(2) have i: "i = 0" and x: "x = (Call q f, tr)" by auto
    have fresh: "in_phase c {Fresh} (Call q f, tr)"
      using clone_only_fresh [of c UNIV q f tr] fork assms(3) x by simp
    have "c r = r" "c 0 = 0" "r \<noteq> 0" "r \<noteq> - 1"
      using assms(4) is_pid_small fork by (auto simp: pid_conversion_def)
    then have "in_phase c parent_phases (f (r, b), tr @ [Called q (r, b)])"
      and "in_phase c child_phases (f (0, b), tr @ [Called q (0, b)])"
      by (auto intro!: in_phase_call [OF fresh] split: if_splits)
    with fork assms(2) i show ?thesis by (simp add: bench_system_def)
  qed (use assms(2,3) in simp)
qed

lemma two_processes_step:
  assumes "system_step K (k, ps) (k', ps')" and "ps = [x, y]" and "in_phase c parent_phases x" and "in_phase c child_phases y"
  shows "bench_system c ps'"
proof -
  note two = assms(2-4)
  have i: "i < length ps \<longleftrightarrow> i = 0 \<or> i = 1" for i using two by auto
  from assms(1) show ?thesis
  proof cases
    case (print j t p tr)
    then have "j = 0 \<or> j = 1" using i by blast
    with two print consider "j = 0" "x = (Out t p, tr)" | "j = 1" "y = (Out t p, tr)" by auto
    then show ?thesis
      by cases (use two print in \<open>simp_all add: in_phase_print\<close>)
  next
    case (trap j q f tr r b)
    then have "j = 0 \<or> j = 1" using i by blast
    with two trap consider "j = 0" "x = (Call q f, tr)" | "j = 1" "y = (Call q f, tr)" by auto
    then show ?thesis
    proof cases
      case 1
      with two have "in_phase c parent_phases (f (r, b), tr @ [Called q (r, b)])"
        by (auto intro: in_phase_roles(1) simp del: insert_iff)
      with 1 two trap show ?thesis by simp
    next
      case 2
      with two have "in_phase c child_phases (f (r, b), tr @ [Called q (r, b)])"
        by (auto intro: in_phase_roles(2) simp del: insert_iff)
      with 2 two trap show ?thesis by simp
    qed
  next
    case (fork j q f tr r b)
    then have "j = 0 \<or> j = 1" using i by blast
    with two fork have "j = 0 \<and> x = (Call q f, tr) \<or> j = 1 \<and> y = (Call q f, tr)" by auto
    then have False
      using clone_only_fresh [of c parent_phases q f tr] clone_only_fresh [of c child_phases q f tr] two fork by auto
    then show ?thesis ..
  qed (use two in simp)
qed

lemma bench_system_step:
  assumes "system_step K (k, ps) (k', ps')" and "bench_system c ps" and "pid_conversion c"
  shows "bench_system c ps'"
  using assms(2) one_process_step [OF assms(1) _ _ assms(3)] two_processes_step [OF assms(1)]
  unfolding bench_system_def [of c ps] by blast

lemma bench_system_reachable:
  assumes "(system_step K)\<^sup>*\<^sup>* (k0, ps0) (k, ps)" and "bench_system c ps0" and "pid_conversion c"
  shows "bench_system c ps"
  using assms(1)
proof (induction "(k, ps)" arbitrary: k ps rule: rtranclp_induct)
  case (step y)
  then show ?case using assms(3) by (cases y) (metis bench_system_step)
qed (use assms(2) in simp)

definition bench_programs :: "uapi set" where
  "bench_programs = range bench_main \<union> range bench_faccessat2_main \<union> {libc_bench_main}"

lemma bench_programs_conform:
  assumes "p \<in> bench_programs"
  shows "\<exists>c. pid_conversion c \<and> conforms (bench_protocol c) p Fresh"
proof -
  consider (raw) b where "p = bench_main b \<or> p = bench_faccessat2_main b" | (libc) "p = libc_bench_main"
    using assms by (auto simp: bench_programs_def)
  then show ?thesis
  proof cases
    case raw
    then have "conforms (bench_protocol (long_result b)) p Fresh"
      by (auto simp: bench_main_def bench_faccessat2_main_def measured_calls intro!: bench_body_conforms)
    then show ?thesis using pid_conversions(1) by blast
  next
    case libc
    then show ?thesis using pid_conversions(2) libc_bench_main_conforms by blast
  qed
qed

lemma in_phase_numbers: "in_phase c S (p, tr) \<Longrightarrow> \<exists>ph \<in> S. phase_history ph (numbers tr)"
  by (auto simp: in_phase_def dest: after_phase_history)

text \<open>
  C18: a benchmark, whichever of the three, is at every moment of every run one process or two. With
  two, the parent has made the call of \<open>clone\<close> only, or has waited with its next call and measured
  since without another \<open>clone\<close> or \<open>swapoff\<close>; the child has made \<open>swapoff\<close> and its exit at most, in this
  order, and never measures.
\<close>

theorem bench_fork:
  assumes "(system_step K)\<^sup>*\<^sup>* (k0, start_all [p0]) (k, ps)" and "p0 \<in> bench_programs"
  shows "(\<exists>x. ps = [x]) \<or>
    (\<exists>p tr p' tr'. ps = [(p, tr), (p', tr')] \<and>
       (numbers tr = [SYS_clone] \<or> (\<exists>ms. list_all measured ms \<and> numbers tr = SYS_clone # SYS_wait4 # ms)) \<and>
       prefix (numbers tr') [SYS_clone, SYS_swapoff, SYS_exit] \<and> numbers tr' \<noteq> [])"
proof -
  obtain c where c: "pid_conversion c" "conforms (bench_protocol c) p0 Fresh"
    using bench_programs_conform [OF assms(2)] by blast
  have "bench_system c (start_all [p0])"
    using c(2) by (simp add: start_all_def in_phase_def)
  from bench_system_reachable [OF assms(1) this c(1)] consider (one) x where "ps = [x]"
    | (two) p tr p' tr' where "ps = [(p, tr), (p', tr')]" "in_phase c parent_phases (p, tr)" "in_phase c child_phases (p', tr')"
    by (auto simp: bench_system_def)
  then show ?thesis
  proof cases
    case two
    from in_phase_numbers [OF two(2)] have "numbers tr = [SYS_clone] \<or> (\<exists>ms. list_all measured ms \<and> numbers tr = SYS_clone # SYS_wait4 # ms)"
      by (auto simp: phase_history_def)
    moreover from in_phase_numbers [OF two(3)] have "prefix (numbers tr') [SYS_clone, SYS_swapoff, SYS_exit] \<and> numbers tr' \<noteq> []"
      by (auto simp: phase_history_def)
    ultimately show ?thesis using two(1) by blast
  qed simp
qed

lemma libc_check_forks:
  "\<exists>f. check_seccomp libc_syscall to_pid h = Call clone_req f \<and>
     f (0, NoBuf) = Call (Req SYS_swapoff [Val 0] NoBuf) (\<lambda>_. Call (Req SYS_exit [Val 0] NoBuf) (\<lambda>_. Done (Exited 0)))"
  unfolding check_seccomp_def libc_syscall_def sys_def clone_req_def Let_def
  by (intro exI conjI, rule refl) (simp add: libc_result_def syscall_gate_errno_def to_pid_def split_def)

text \<open>The child runs to its end before the parent has made its second call.\<close>

lemma bench_fork_witness:
  "\<exists>k x tr'. (system_step script)\<^sup>*\<^sup>* ([(7, NoBuf), (0, NoBuf), (0, NoBuf)], start_all [libc_bench_main])
       (k, [x, (Done (Exited 0), tr')]) \<and>
     prefix (numbers tr') [SYS_clone, SYS_swapoff, SYS_exit]"
proof -
  let ?swapoff = "Req SYS_swapoff [Val 0] (NoBuf :: uapi_buf)" and ?exit = "Req SYS_exit [Val 0] (NoBuf :: uapi_buf)"
  obtain h where "libc_bench_main = check_seccomp libc_syscall to_pid h"
    unfolding libc_bench_main_def by blast
  then obtain f where f: "libc_bench_main = Call clone_req f"
    "f (0, NoBuf) = Call ?swapoff (\<lambda>_. Call ?exit (\<lambda>_. Done (Exited 0)))"
    using libc_check_forks [of h] by auto
  let ?x = "(f (7, NoBuf), [Called clone_req (7, NoBuf)])" and ?c0 = "[Called clone_req (0, NoBuf :: uapi_buf)]"
  have forked: "system_step script ([(7, NoBuf), (0, NoBuf), (0, NoBuf)], start_all [libc_bench_main])
      ([(0, NoBuf), (0, NoBuf)], [?x, (f (0, NoBuf), ?c0)])"
    using system_step.fork [of 0 "start_all [libc_bench_main]" clone_req f "[]" script "[(7, NoBuf), (0, NoBuf), (0, NoBuf)]" 7 NoBuf "[(0, NoBuf), (0, NoBuf)]"] f(1)
    by (simp add: start_all_def clone_req_def is_pid_def)
  have tried: "system_step script ([(0, NoBuf), (0, NoBuf)], [?x, (f (0, NoBuf), ?c0)])
      ([(0, NoBuf)], [?x, (Call ?exit (\<lambda>_. Done (Exited 0)), ?c0 @ [Called ?swapoff (0, NoBuf)])])"
    using system_step.trap [of 1 "[?x, (f (0, NoBuf), ?c0)]" ?swapoff _ ?c0 script "[(0, NoBuf), (0, NoBuf)]" 0 NoBuf "[(0, NoBuf)]"] f(2)
    by simp
  have left: "system_step script ([(0, NoBuf)], [?x, (Call ?exit (\<lambda>_. Done (Exited 0)), ?c0 @ [Called ?swapoff (0, NoBuf)])])
      ([], [?x, (Done (Exited 0), ?c0 @ [Called ?swapoff (0, NoBuf), Called ?exit (0, NoBuf)])])"
    using system_step.trap [of 1 "[?x, (Call ?exit (\<lambda>_. Done (Exited 0)), ?c0 @ [Called ?swapoff (0, NoBuf)])]" ?exit _ _ script "[(0, NoBuf)]" 0 NoBuf "[]"]
    by simp
  have reach: "(system_step script)\<^sup>*\<^sup>* ([(7, NoBuf), (0, NoBuf), (0, NoBuf)], start_all [libc_bench_main])
      ([], [?x, (Done (Exited 0), ?c0 @ [Called ?swapoff (0, NoBuf), Called ?exit (0, NoBuf)])])"
    by (rule rtranclp.rtrancl_into_rtrancl [OF rtranclp.rtrancl_into_rtrancl [OF r_into_rtranclp]])
       (rule forked tried left)+
  from bench_fork [OF this] have "prefix (numbers (?c0 @ [Called ?swapoff (0, NoBuf), Called ?exit (0, NoBuf)])) [SYS_clone, SYS_swapoff, SYS_exit]"
    by (simp add: bench_programs_def)
  with reach show ?thesis by blast
qed

end
