(* ===== verification/Binary64.thy ===== *)
theory Binary64
  imports Complex_Main Digits "HOL-Library.Log_Nat"
begin

text \<open>
  The C type \<open>double\<close> as far as the benchmarks use it: binary64 with 53 significant bits, round to
  nearest with ties to even, infinities and not-a-number. Values are rationals; the exponent range
  is unbounded below (the programs stay above the subnormal numbers) and overflows at 2 to the
  1024. Negative zero is not represented: no operation of the programs gives it.
\<close>

section \<open>Rounding\<close>

definition round_even :: "rat \<Rightarrow> int" where
  "round_even x =
     (let n = \<lfloor>x\<rfloor>; r = x - of_int n
      in if r < 1 / 2 \<or> r = 1 / 2 \<and> even n then n else n + 1)"

lemma round_even_of_int [simp]: "round_even (of_int n) = n"
  by (simp add: round_even_def)

lemma round_even_mono:
  assumes "x \<le> y"
  shows "round_even x \<le> round_even y"
proof -
  have "\<lfloor>x\<rfloor> \<le> \<lfloor>y\<rfloor>" using assms by (rule floor_mono)
  then consider "\<lfloor>x\<rfloor> = \<lfloor>y\<rfloor>" | "\<lfloor>x\<rfloor> + 1 \<le> \<lfloor>y\<rfloor>" by linarith
  then show ?thesis
  proof cases
    case 1
    with assms show ?thesis by (auto simp: round_even_def Let_def)
  next
    case 2
    then show ?thesis by (auto simp: round_even_def Let_def)
  qed
qed

text \<open>The exponent of the last of 53 bits of a positive number.\<close>

definition last_exp :: "rat \<Rightarrow> int" where
  "last_exp x =
     (case quotient_of x of (p, q) \<Rightarrow>
        let d = bitlen p - bitlen q in if x < 2 powi d then d - 53 else d - 52)"

definition round53 :: "rat \<Rightarrow> rat" where
  "round53 x =
     (if x = 0 then 0
      else let e = last_exp \<bar>x\<bar> in sgn x * of_int (round_even (\<bar>x\<bar> / 2 powi e)) * 2 powi e)"

lemma powi_less_iff: "(2 :: rat) powi a < 2 powi b \<longleftrightarrow> a < b"
  using power_int_strict_increasing [of a b "2 :: rat"] power_int_increasing [of b a "2 :: rat"]
  by (cases "a < b") auto

lemma last_exp_bounds:
  assumes "0 < x"
  shows "2 powi (last_exp x + 52) \<le> x" and "x < 2 powi (last_exp x + 53)"
proof -
  obtain p q where pq: "quotient_of x = (p, q)" by fastforce
  then have q: "0 < q" and x: "x = of_int p / of_int q"
    using quotient_of_denom_pos quotient_of_div by blast+
  with assms have p: "0 < p" by (simp add: zero_less_divide_iff)
  have bits: "2 powi (bitlen n - 1) \<le> (of_int n :: rat) \<and> (of_int n :: rat) < 2 powi bitlen n" if "0 < n" for n
  proof -
    have "2 ^ nat (bitlen n - 1) \<le> n" "n < 2 ^ nat (bitlen n)" using bitlen_bounds [OF that] by auto
    then have "(of_int (2 ^ nat (bitlen n - 1)) :: rat) \<le> of_int n" "(of_int n :: rat) < of_int (2 ^ nat (bitlen n))"
      by linarith+
    moreover have "0 < bitlen n" using that bitlen_nonneg [of n] bitlen_eq_zero_iff [of n] by linarith
    ultimately show ?thesis by (simp add: power_int_def)
  qed
  define d where "d = bitlen p - bitlen q"
  have "(2 powi (d - 1) :: rat) = 2 powi (bitlen p - 1) / 2 powi bitlen q"
    by (simp add: d_def power_int_diff flip: power_int_add)
  also have "\<dots> \<le> x"
    unfolding x using bits [OF p] bits [OF q] p q by (intro frac_le) auto
  finally have lo: "2 powi (d - 1) \<le> x" .
  have "x < 2 powi bitlen p / 2 powi (bitlen q - 1)"
    unfolding x using bits [OF p] bits [OF q] p q by (intro frac_less) auto
  also have "\<dots> = 2 powi (d + 1)"
    by (simp add: d_def power_int_diff power_int_add)
  finally have hi: "x < 2 powi (d + 1)" .
  show "2 powi (last_exp x + 52) \<le> x" "x < 2 powi (last_exp x + 53)"
    using lo hi by (auto simp: last_exp_def pq Let_def add.commute simp flip: d_def)
qed

lemma last_exp_mono:
  assumes "0 < x" and "x \<le> y"
  shows "last_exp x \<le> last_exp y"
proof -
  have "(2 :: rat) powi (last_exp x + 52) < 2 powi (last_exp y + 53)"
    using last_exp_bounds [of x] last_exp_bounds [of y] assms by linarith
  then have "last_exp x + 52 < last_exp y + 53"
    unfolding powi_less_iff .
  then show ?thesis by simp
qed

definition scaled :: "rat \<Rightarrow> rat" where
  "scaled x = x / 2 powi last_exp x"

lemma scaled_bounds:
  assumes "0 < x"
  shows "2 ^ 52 \<le> scaled x" and "scaled x < 2 ^ 53"
  using last_exp_bounds [OF assms] by (simp_all add: scaled_def field_simps power_int_add)

lemma round53_pos: "0 < x \<Longrightarrow> round53 x = of_int (round_even (scaled x)) * 2 powi last_exp x"
  by (simp add: round53_def scaled_def Let_def)

lemma round53_zero [simp]: "round53 0 = 0"
  by (simp add: round53_def)

lemma round53_minus: "round53 (- x) = - round53 x"
  by (simp add: round53_def Let_def)

lemma round53_ge_pos:
  assumes "0 < x"
  shows "2 powi (last_exp x + 52) \<le> round53 x" and "round53 x \<le> 2 powi (last_exp x + 53)"
proof -
  have "round_even (of_int (2 ^ 52)) \<le> round_even (scaled x)" "round_even (scaled x) \<le> round_even (of_int (2 ^ 53))"
    using scaled_bounds [OF assms] by (intro round_even_mono; simp)+
  then have "of_int (2 ^ 52) \<le> (of_int (round_even (scaled x)) :: rat)" "(of_int (round_even (scaled x)) :: rat) \<le> of_int (2 ^ 53)"
    unfolding round_even_of_int of_int_le_iff by simp_all
  then show "2 powi (last_exp x + 52) \<le> round53 x" "round53 x \<le> 2 powi (last_exp x + 53)"
    using assms by (simp_all add: round53_pos power_int_add)
qed

lemma round53_mono_pos:
  assumes "0 < x" and "x \<le> y"
  shows "round53 x \<le> round53 y"
proof (cases "last_exp x = last_exp y")
  case True
  then have "scaled x \<le> scaled y" using assms by (simp add: scaled_def divide_right_mono)
  then have "round_even (scaled x) \<le> round_even (scaled y)" by (rule round_even_mono)
  with True assms show ?thesis by (simp add: round53_pos mult_right_mono)
next
  case False
  with last_exp_mono [OF assms] have "last_exp x + 53 \<le> last_exp y + 52" by simp
  then have "(2 :: rat) powi (last_exp x + 53) \<le> 2 powi (last_exp y + 52)"
    by (intro power_int_increasing) simp_all
  with round53_ge_pos [of x] round53_ge_pos [of y] assms show ?thesis by linarith
qed

lemma round53_sign: "0 < x \<Longrightarrow> 0 < round53 x" "x < 0 \<Longrightarrow> round53 x < 0"
proof -
  have pos: "0 < round53 y" if "0 < y" for y
    using round53_ge_pos(1) [OF that] by (rule order_less_le_trans [rotated]) simp
  then show "0 < x \<Longrightarrow> 0 < round53 x" .
  assume "x < 0"
  then show "round53 x < 0" using pos [of "- x"] by (simp add: round53_minus)
qed

lemma round53_mono:
  assumes "x \<le> y"
  shows "round53 x \<le> round53 y"
proof -
  consider "0 < x" | "x \<le> 0" "0 \<le> y" | "y < 0" by linarith
  then show ?thesis
  proof cases
    case 2
    then have "round53 x \<le> 0" "0 \<le> round53 y"
      using round53_sign [of x] round53_sign [of y] by (cases "x = 0"; cases "y = 0"; force)+
    then show ?thesis by simp
  next
    case 3
    with assms round53_mono_pos [of "- y" "- x"] show ?thesis by (simp add: round53_minus)
  qed (simp add: round53_mono_pos assms)
qed

lemma round_even_le: "x \<le> of_int n \<Longrightarrow> round_even x \<le> n"
  using round_even_mono [of x "of_int n"] by simp

lemma round_even_ge: "of_int n \<le> x \<Longrightarrow> n \<le> round_even x"
  using round_even_mono [of "of_int n" x] by simp

text \<open>Integers below 2 to the 53 are kept.\<close>

lemma round53_small:
  assumes "0 \<le> n" and "n < 2 ^ 53"
  shows "round53 (of_int n) = of_int n"
proof (cases "n = 0")
  case False
  with assms have pos: "0 < (of_int n :: rat)" by simp
  let ?e = "last_exp (of_int n)"
  have "2 powi (?e + 52) \<le> (of_int n :: rat)" using last_exp_bounds(1) [OF pos] .
  also have "(of_int n :: rat) < of_int (2 ^ 53)" using assms(2) by (simp only: of_int_less_iff)
  also have "(of_int (2 ^ 53) :: rat) = 2 powi 53" by (simp add: power_int_def)
  finally have e: "?e \<le> 0" unfolding powi_less_iff by simp
  have inv: "(2 :: rat) ^ nat (- ?e) * 2 powi ?e = 1"
    using e by (simp add: power_int_def flip: power_mult_distrib)
  then have n: "of_int n = (of_int (n * 2 ^ nat (- ?e)) :: rat) * 2 powi ?e"
    by (simp add: mult.assoc)
  then have "scaled (of_int n) = of_int (n * 2 ^ nat (- ?e))"
    unfolding scaled_def by (metis nonzero_mult_div_cancel_right power_int_not_zero zero_neq_numeral)
  then show ?thesis
    unfolding round53_pos [OF pos] using n by (simp only: round_even_of_int)
qed simp

section \<open>Values and operations\<close>

datatype binary64 = NaN | Inf bool | Fin rat

definition rounded :: "rat \<Rightarrow> binary64" where
  "rounded x = (let r = round53 x in if 2 ^ 1024 \<le> \<bar>r\<bar> then Inf (r < 0) else Fin r)"

definition of_integer64 :: "int \<Rightarrow> binary64" where
  "of_integer64 n = rounded (of_int n)"

fun fdiv :: "binary64 \<Rightarrow> binary64 \<Rightarrow> binary64" where
  "fdiv (Fin a) (Fin b) = (if b = 0 then (if a = 0 then NaN else Inf (a < 0)) else rounded (a / b))"
| "fdiv (Inf s) (Fin b) = Inf (s \<noteq> (b < 0))"
| "fdiv (Fin a) (Inf s) = Fin 0"
| "fdiv x y = NaN"

fun fsub :: "binary64 \<Rightarrow> binary64 \<Rightarrow> binary64" where
  "fsub (Fin a) (Fin b) = rounded (a - b)"
| "fsub (Inf s) (Fin b) = Inf s"
| "fsub (Fin a) (Inf s) = Inf (\<not> s)"
| "fsub (Inf s) (Inf t) = (if s = t then NaN else Inf s)"
| "fsub x y = NaN"

fun fmul :: "binary64 \<Rightarrow> binary64 \<Rightarrow> binary64" where
  "fmul (Fin a) (Fin b) = rounded (a * b)"
| "fmul (Inf s) (Fin b) = (if b = 0 then NaN else Inf (s \<noteq> (b < 0)))"
| "fmul (Fin a) (Inf s) = (if a = 0 then NaN else Inf (s \<noteq> (a < 0)))"
| "fmul (Inf s) (Inf t) = Inf (s \<noteq> t)"
| "fmul x y = NaN"

text \<open>The comparisons of C; nothing is below or above a value that is not a number, itself included.\<close>

instantiation binary64 :: ord
begin

fun less_eq_binary64 :: "binary64 \<Rightarrow> binary64 \<Rightarrow> bool" where
  "less_eq_binary64 NaN y = False"
| "less_eq_binary64 x NaN = False"
| "less_eq_binary64 (Inf s) y = (s \<or> y = Inf False)"
| "less_eq_binary64 x (Inf s) = (\<not> s)"
| "less_eq_binary64 (Fin a) (Fin b) = (a \<le> b)"

definition less_binary64 :: "binary64 \<Rightarrow> binary64 \<Rightarrow> bool" where
  "less_binary64 x y \<longleftrightarrow> x \<le> y \<and> \<not> y \<le> x"

instance ..

end

text \<open>\<open>%.2f\<close>: the exact value to two decimals, ties to even.\<close>

definition fmt_f2 :: "binary64 \<Rightarrow> string" where
  "fmt_f2 x =
     (case x of
        NaN \<Rightarrow> ''nan''
      | Inf s \<Rightarrow> (if s then ''-inf'' else ''inf'')
      | Fin r \<Rightarrow>
          (let m = nat (round_even (\<bar>r\<bar> * 100))
           in (if r < 0 then ''-'' else []) @ show_base 10 (m div 100) @ ''.'' @
              [digit_char (m div 10 mod 10), digit_char (m mod 10)]))"

section \<open>Order\<close>

lemma rounded_mono64: "x \<le> y \<Longrightarrow> rounded x \<le> rounded y"
proof -
  assume "x \<le> y"
  then have "round53 x \<le> round53 y" by (rule round53_mono)
  moreover have "(0 :: rat) < 2 ^ 1024" by simp
  ultimately show ?thesis by (auto simp: rounded_def Let_def abs_if simp del: power_numeral split: if_splits)
qed

lemma round53_le_powi:
  assumes "0 < x" and "x < 2 powi k"
  shows "round53 x \<le> 2 powi k"
proof -
  have "(2 :: rat) powi (last_exp x + 52) < 2 powi k"
    using last_exp_bounds(1) [OF assms(1)] assms(2) by (rule order_le_less_trans)
  then have "last_exp x + 53 \<le> k" unfolding powi_less_iff by simp
  then have "(2 :: rat) powi (last_exp x + 53) \<le> 2 powi k" by (intro power_int_increasing) simp_all
  with round53_ge_pos(2) [OF assms(1)] show ?thesis by (rule order_trans)
qed

lemma rounded_Fin:
  assumes "0 \<le> x" and "x < 2 powi k" and "k < 1024"
  shows "rounded x = Fin (round53 x)"
proof -
  have "0 \<le> round53 x" using round53_mono [of 0 x] assms(1) by simp
  moreover have "round53 x \<le> 2 powi k"
    using round53_le_powi [of x k] assms by (cases "x = 0") simp_all
  moreover have "(2 :: rat) powi k < 2 powi 1024" unfolding powi_less_iff by (rule assms(3))
  ultimately have "\<not> 2 ^ 1024 \<le> \<bar>round53 x\<bar>" by (simp add: power_int_def del: power_numeral)
  then show ?thesis by (simp add: rounded_def Let_def del: power_numeral)
qed

lemma rounded_small:
  assumes "0 \<le> n" and "n < 2 ^ 53"
  shows "rounded (of_int n) = Fin (of_int n)"
proof -
  have "(of_int n :: rat) < of_int (2 ^ 53)" using assms(2) by (simp only: of_int_less_iff)
  then show ?thesis
    using rounded_Fin [of "of_int n" 53] round53_small [OF assms] assms(1) by (simp add: power_int_def)
qed

lemma rounded_numeral [simp]: "rounded 0 = Fin 0" "rounded 1 = Fin 1" "rounded 2 = Fin 2" "rounded 100 = Fin 100"
  using rounded_small [of 0] rounded_small [of 1] rounded_small [of 2] rounded_small [of 100] by simp_all

lemma of_integer64_Fin:
  assumes "0 \<le> n" and "n < 2 ^ 64"
  shows "of_integer64 n = Fin (round53 (of_int n))"
proof -
  have "(of_int n :: rat) < of_int (2 ^ 64)" using assms(2) by (simp only: of_int_less_iff)
  then show ?thesis
    using rounded_Fin [of "of_int n" 64] assms(1) by (simp add: of_integer64_def power_int_def)
qed

lemma last_exp_unique:
  assumes "2 powi (e + 52) \<le> x" and "x < 2 powi (e + 53)"
  shows "last_exp x = e"
proof -
  have x: "0 < x" using assms(1) by (rule order_less_le_trans [rotated]) simp
  have "(2 :: rat) powi (e + 52) < 2 powi (last_exp x + 53)" "(2 :: rat) powi (last_exp x + 52) < 2 powi (e + 53)"
    using assms last_exp_bounds [OF x] by linarith+
  then show ?thesis unfolding powi_less_iff by simp
qed

lemma round53_twice:
  assumes "0 < x"
  shows "round53 (2 * x) = 2 * round53 x"
proof -
  have "last_exp (2 * x) = last_exp x + 1"
    using last_exp_bounds [OF assms] by (intro last_exp_unique) (simp_all add: power_int_add algebra_simps)
  moreover from this have "scaled (2 * x) = scaled x"
    by (simp add: scaled_def power_int_add)
  ultimately show ?thesis
    using assms by (simp add: round53_pos power_int_add)
qed

section \<open>Relative overhead\<close>

text \<open>\<open>((double)a / b - 1.0) * 100.0\<close>: exact enough to never show a slow-down that is not there.\<close>

definition overhead :: "int \<Rightarrow> int \<Rightarrow> binary64" where
  "overhead a b = fmul (fsub (fdiv (of_integer64 a) (of_integer64 b)) (Fin 1)) (Fin 100)"

lemma rounded_order:
  "x \<le> 0 \<Longrightarrow> rounded x \<le> Fin 0" "1 \<le> x \<Longrightarrow> Fin 1 \<le> rounded x" "100 \<le> x \<Longrightarrow> Fin 100 \<le> rounded x"
  using rounded_mono64 [of x 0] rounded_mono64 [of 1 x] rounded_mono64 [of 100 x] by simp_all

lemma fsub_one_mono:
  "x \<le> Fin 1 \<Longrightarrow> fsub x (Fin 1) \<le> Fin 0" "Fin 2 \<le> x \<Longrightarrow> Fin 1 \<le> fsub x (Fin 1)"
  by (cases x; auto intro: rounded_order)+

lemma fmul_hundred_mono:
  "x \<le> Fin 0 \<Longrightarrow> fmul x (Fin 100) \<le> Fin 0" "Fin 1 \<le> x \<Longrightarrow> Fin 100 \<le> fmul x (Fin 100)"
  by (cases x; auto intro: rounded_order)+

lemma overhead_nonpos:
  assumes "0 \<le> a" and "a \<le> b" and "b < 2 ^ 64"
  shows "overhead a b = NaN \<or> overhead a b \<le> Fin 0"
proof (cases "b = 0")
  case True
  with assms have "a = 0" by simp
  with True show ?thesis by (simp add: overhead_def of_integer64_def)
next
  case False
  let ?ra = "round53 (of_int a)" and ?rb = "round53 (of_int b)"
  have rb: "0 < ?rb" using False assms by (intro round53_sign(1)) simp
  moreover have "?ra \<le> ?rb" using assms(2) by (intro round53_mono) simp
  ultimately have "?ra / ?rb \<le> 1" by simp
  then have "rounded (?ra / ?rb) \<le> Fin 1" using rounded_mono64 [of "?ra / ?rb" 1] by simp
  moreover have "fdiv (of_integer64 a) (of_integer64 b) = rounded (?ra / ?rb)"
    using rb assms by (simp add: of_integer64_Fin)
  ultimately have "overhead a b \<le> Fin 0"
    unfolding overhead_def by (intro fmul_hundred_mono(1) fsub_one_mono(1)) simp
  then show ?thesis ..
qed

lemma overhead_doubled:
  assumes "0 < b" and "2 * b \<le> a" and "a < 2 ^ 64"
  shows "Fin 100 \<le> overhead a b"
proof -
  let ?ra = "round53 (of_int a)" and ?rb = "round53 (of_int b)"
  have rb: "0 < ?rb" using assms(1) by (intro round53_sign(1)) simp
  have "2 * ?rb = round53 (2 * of_int b)" using assms(1) by (simp add: round53_twice)
  also have "2 * of_int b = (of_int (2 * b) :: rat)" by simp
  also have "round53 (of_int (2 * b)) \<le> ?ra" using assms(2) by (intro round53_mono) (simp only: of_int_le_iff)
  finally have "2 \<le> ?ra / ?rb" using rb by (simp add: field_simps)
  then have "Fin 2 \<le> rounded (?ra / ?rb)" using rounded_mono64 [of 2 "?ra / ?rb"] by simp
  moreover have "fdiv (of_integer64 a) (of_integer64 b) = rounded (?ra / ?rb)"
    using rb assms by (simp add: of_integer64_Fin)
  ultimately show ?thesis
    unfolding overhead_def by (intro fmul_hundred_mono(2) fsub_one_mono(2)) simp
qed

end
