(* ===== verification/TimingAbuse.thy ===== *)
theory TimingAbuse
  imports SyscallBench Binary64 "HOL-Library.Multiset"
begin

text \<open>
  The timing side channel programs \<open>kernelsu/prctl_abuse/prctl_abuse.c\<close> and
  \<open>syscall_shit/stat_abuse/stat_bench.c\<close>: they time batches of two kinds of calls, compare averages
  and medians in \<open>double\<close> arithmetic, and the first one draws a verdict. The C library's \<open>qsort\<close> is
  modelled by insertion; a locale states what a comparator has to satisfy for the result to be
  independent of the algorithm.
\<close>

section \<open>qsort\<close>

definition compare_ull :: "u64 \<Rightarrow> u64 \<Rightarrow> cint" where
  "compare_ull a b = (if a > b then 1 else 0) - (if a < b then 1 else 0)"

fun qsort_insert :: "('a \<Rightarrow> 'a \<Rightarrow> cint) \<Rightarrow> 'a \<Rightarrow> 'a list \<Rightarrow> 'a list" where
  "qsort_insert cmp x [] = [x]"
| "qsort_insert cmp x (y # ys) = (if cmp x y \<le>s 0 then x # y # ys else y # qsort_insert cmp x ys)"

definition qsort :: "('a \<Rightarrow> 'a \<Rightarrow> cint) \<Rightarrow> 'a list \<Rightarrow> 'a list" where
  "qsort cmp xs = foldr (qsort_insert cmp) xs []"

locale c_comparator =
  fixes cmp :: "'a \<Rightarrow> 'a \<Rightarrow> cint"
  assumes total: "cmp x y \<le>s 0 \<or> cmp y x \<le>s 0"
    and trans: "cmp x y \<le>s 0 \<Longrightarrow> cmp y z \<le>s 0 \<Longrightarrow> cmp x z \<le>s 0"
begin

abbreviation ordered :: "'a list \<Rightarrow> bool" where
  "ordered \<equiv> sorted_wrt (\<lambda>x y. cmp x y \<le>s 0)"

lemma mset_insert: "mset (qsort_insert cmp x ys) = add_mset x (mset ys)"
  by (induction ys) auto

lemma mset_qsort: "mset (qsort cmp xs) = mset xs"
  by (induction xs) (simp_all add: qsort_def mset_insert)

lemma ordered_insert: "ordered ys \<Longrightarrow> ordered (qsort_insert cmp x ys)"
proof (induction ys)
  case (Cons y ys)
  have "set (qsort_insert cmp x ys) = insert x (set ys)"
    using mset_insert [of x ys] by (metis set_mset_add_mset_insert set_mset_mset)
  then show ?case using Cons total [of x y] trans [of x y] by auto
qed simp

lemma ordered_qsort: "ordered (qsort cmp xs)"
  by (induction xs) (simp_all add: qsort_def ordered_insert)

end

text \<open>When only equal elements compare as equal, there is one ordered arrangement of a list.\<close>

locale antisymmetric_comparator = c_comparator +
  assumes antisym: "cmp x y \<le>s 0 \<Longrightarrow> cmp y x \<le>s 0 \<Longrightarrow> x = y"
begin

lemma ordered_unique: "ordered xs \<Longrightarrow> ordered ys \<Longrightarrow> mset xs = mset ys \<Longrightarrow> xs = ys"
proof (induction xs arbitrary: ys)
  case (Cons x xs)
  then obtain y ys' where ys: "ys = y # ys'" by (cases ys) auto
  have "x \<in> set ys" "y \<in> set (x # xs)"
    using Cons.prems(3) ys by (metis list.set_intros(1) set_mset_mset)+
  then have "x = y" using Cons.prems(1,2) ys antisym by auto
  with Cons ys show ?case by simp
qed simp

lemma qsort_unique: "ordered ys \<Longrightarrow> mset ys = mset xs \<Longrightarrow> ys = qsort cmp xs"
  by (rule ordered_unique) (simp_all add: ordered_qsort mset_qsort)

end

lemma compare_ull_le: "compare_ull a b \<le>s 0 \<longleftrightarrow> a \<le> b"
proof -
  have "(1 :: cint) \<le>s 0 \<longleftrightarrow> False" "(- 1 :: cint) \<le>s 0 \<longleftrightarrow> True" by (simp_all add: word_sle_eq)
  then show ?thesis by (auto simp: compare_ull_def word_sle_eq)
qed

interpretation ull: antisymmetric_comparator compare_ull
  by unfold_locales (auto simp: compare_ull_le)

lemma qsort_ull: "qsort compare_ull xs = sort xs"
  by (rule ull.qsort_unique [symmetric]) (simp_all add: compare_ull_le)

section \<open>The timing loops\<close>

definition N_ITERATIONS :: nat where "N_ITERATIONS = 1000"
definition N_BATCH :: nat where "N_BATCH = 8"

text \<open>\<open>do body while (++z < n)\<close>\<close>

function do_times :: "nat \<Rightarrow> nat \<Rightarrow> (uapi \<Rightarrow> uapi) \<Rightarrow> uapi \<Rightarrow> uapi" where
  "do_times n z body k = body (if z + 1 < n then do_times n (z + 1) body k else k)"
  by pat_completeness auto

termination by (relation "measure (\<lambda>(n, z, _, _). n - z)") auto

declare do_times.simps [simp del]

definition warm_up :: "(uapi \<Rightarrow> uapi) \<Rightarrow> uapi \<Rightarrow> uapi" where
  "warm_up body k = do_times 250 0 (do_times N_BATCH 0 body) k"

text \<open>The array starts with indeterminate contents; \<open>i\<close> is the index, \<open>tot\<close> the running sum.\<close>

function sample_loop ::
  "(uapi \<Rightarrow> uapi) \<Rightarrow> nat \<Rightarrow> nat \<Rightarrow> u64 list \<Rightarrow> u64 \<Rightarrow> (u64 list \<Rightarrow> u64 \<Rightarrow> uapi) \<Rightarrow> uapi" where
  "sample_loop call n i samples tot k =
     time_now_ns libc_syscall (\<lambda>t0.
       do_times N_BATCH 0 call
         (time_now_ns libc_syscall (\<lambda>t1.
           let samples = samples[i := (t1 - t0) div of_nat N_BATCH];
               tot = tot + samples ! i
           in if i + 1 < n then sample_loop call n (i + 1) samples tot k else k samples tot)))"
  by pat_completeness auto

termination by (relation "measure (\<lambda>(_, n, i, _, _, _). n - i)") auto

declare sample_loop.simps [simp del]

definition pin_to_core :: "uapi \<Rightarrow> uapi" where
  "pin_to_core k = libc_syscall SYS_sched_setaffinity [Val 0, Val 128, Ptr] (WordsBuf (1 # replicate 15 0)) (\<lambda>_ _. k)"

definition average :: "u64 \<Rightarrow> clong" where
  "average tot = tot div of_nat N_ITERATIONS"

definition median :: "u64 list \<Rightarrow> u64" where
  "median samples = qsort compare_ull samples ! (N_ITERATIONS div 2)"

section \<open>prctl abuse\<close>

definition prctl_call :: "u64 \<Rightarrow> uapi \<Rightarrow> uapi" where
  "prctl_call option k =
     libc_syscall SYS_prctl [Val option, Ptr, Ptr, Ptr, Ptr] (WordsBuf [0]) (\<lambda>_ _. k)"

definition confidence_high :: string where "confidence_high = ''confidence: high''"
definition confidence_maybe :: string where "confidence_maybe = ''confidence: maybe''"
definition try_again :: string where "try_again = ''verdict: try again''"

definition verdict :: "binary64 \<Rightarrow> binary64 \<Rightarrow> string" where
  "verdict median_overhead percent_overhead =
     (if Fin (3 / 2) \<le> median_overhead
      then if Fin (3 / 2) \<le> percent_overhead then confidence_high
           else if Fin (1 / 2) < percent_overhead then confidence_maybe
           else try_again
      else try_again)"

definition prctl_report :: "u64 list \<Rightarrow> u64 \<Rightarrow> u64 list \<Rightarrow> u64 \<Rightarrow> string list" where
  "prctl_report deadbeef total_deadbeef ffffffff total_ffffffff =
     (let avg_real = average total_deadbeef; avg_nop = average total_ffffffff;
          percent_overhead = overhead (sint avg_real) (sint avg_nop);
          median_deadbeef = median deadbeef; median_ffffffff = median ffffffff;
          median_overhead = overhead (uint median_deadbeef) (uint median_ffffffff)
      in [''iterations: '' @ show_base 10 N_ITERATIONS,
          ''average 0xFFFFFFFF: '' @ fmt_ld avg_nop @ '' ns'',
          ''average 0xDEADBEEF: '' @ fmt_ld avg_real @ '' ns'',
          ''average 0xDEADBEEF/0xFFFFFFFF: '' @ fmt_f2 percent_overhead @ ''%'',
          ''median 0xFFFFFFFF: '' @ fmt_lu median_ffffffff @ '' ns'',
          ''median 0xDEADBEEF: '' @ fmt_lu median_deadbeef @ '' ns'',
          ''median 0xDEADBEEF/0xFFFFFFFF: '' @ fmt_f2 median_overhead @ ''%'',
          verdict median_overhead percent_overhead])"

definition prctl_abuse_main :: "u64 list \<Rightarrow> u64 list \<Rightarrow> uapi" where
  "prctl_abuse_main deadbeef ffffffff =
     pin_to_core
       (warm_up (\<lambda>k. prctl_call 0xFFFFFFFF (prctl_call 0xFFFFFFFF k))
         (sample_loop (prctl_call 0xFFFFFFFF) N_ITERATIONS 0 ffffffff 0 (\<lambda>ffffffff total_ffffffff.
           warm_up (\<lambda>k. prctl_call 0xDEADBEED (prctl_call 0xDEADBEEE k))
             (sample_loop (prctl_call 0xDEADBEEF) N_ITERATIONS 0 deadbeef 0 (\<lambda>deadbeef total_deadbeef.
               put_lines (prctl_report deadbeef total_deadbeef ffffffff total_ffffffff) (Done (Exited 0)))))))"

section \<open>stat abuse\<close>

definition newfstatat_call :: "uapi \<Rightarrow> uapi" where
  "newfstatat_call k = libc_syscall SYS_newfstatat [Val AT_FDCWD, Val 0, Ptr, Val 0] NoBuf (\<lambda>_ _. k)"

definition newfstat_call :: "uapi \<Rightarrow> uapi" where
  "newfstat_call k = libc_syscall SYS_fstat [Val 0, Ptr] NoBuf (\<lambda>_ _. k)"

definition stat_report :: "u64 list \<Rightarrow> u64 \<Rightarrow> u64 list \<Rightarrow> u64 \<Rightarrow> string list" where
  "stat_report newfstat total_newfstat newfstatat total_newfstatat =
     (let avg_newfstat = average total_newfstat; avg_newfstatat = average total_newfstatat;
          percent_overhead = overhead (sint avg_newfstatat) (sint avg_newfstat);
          median_newfstat = median newfstat; median_newfstatat = median newfstatat;
          median_overhead = overhead (uint median_newfstatat) (uint median_newfstat)
      in [''iterations: '' @ show_base 10 N_ITERATIONS,
          ''average newfstat: '' @ fmt_ld avg_newfstat @ '' ns'',
          ''average newfstatat: '' @ fmt_ld avg_newfstatat @ '' ns'',
          ''average newfstatat/newfstat overhead: '' @ fmt_f2 percent_overhead @ ''%'',
          ''median newfstat: '' @ fmt_lu median_newfstat @ '' ns'',
          ''median newfstatat: '' @ fmt_lu median_newfstatat @ '' ns'',
          ''median newfstatat/newfstat overhead: '' @ fmt_f2 median_overhead @ ''%''])"

definition stat_bench_main :: "u64 list \<Rightarrow> u64 list \<Rightarrow> uapi" where
  "stat_bench_main newfstat newfstatat =
     pin_to_core
       (warm_up (\<lambda>k. newfstatat_call (newfstatat_call k))
         (sample_loop newfstatat_call N_ITERATIONS 0 newfstatat 0 (\<lambda>newfstatat total_newfstatat.
           warm_up (\<lambda>k. newfstat_call (newfstat_call k))
             (sample_loop newfstat_call N_ITERATIONS 0 newfstat 0 (\<lambda>newfstat total_newfstat.
               put_lines (stat_report newfstat total_newfstat newfstatat total_newfstatat) (Done (Exited 0)))))))"

section \<open>What a run did\<close>

text \<open>
  The view of a trace: the requests in order, the answers of the clock, the printed texts; and a
  logic of runs over views.
\<close>

fun clock_answers :: "uapi_buf event list \<Rightarrow> u64 list" where
  "clock_answers [] = []"
| "clock_answers (Called q (r, b) # tr) =
     (if req_no q = SYS_clock_gettime then timespec_ns b # clock_answers tr else clock_answers tr)"
| "clock_answers (Printed t # tr) = clock_answers tr"

fun printed :: "'b event list \<Rightarrow> string list" where
  "printed [] = []"
| "printed (Called q r # tr) = printed tr"
| "printed (Printed t # tr) = t # printed tr"

fun requests :: "'b event list \<Rightarrow> 'b req list" where
  "requests [] = []"
| "requests (Called q r # tr) = q # requests tr"
| "requests (Printed t # tr) = requests tr"

type_synonym view = "uapi_buf req list \<times> u64 list \<times> string list"

definition view_of :: "uapi_buf event list \<Rightarrow> view" where
  "view_of tr = (requests tr, clock_answers tr, printed tr)"

lemma clock_answers_append: "clock_answers (h @ h') = clock_answers h @ clock_answers h'"
  by (induction h rule: clock_answers.induct) auto

lemma printed_append: "printed (h @ h') = printed h @ printed h'"
  by (induction h rule: printed.induct) auto

lemma requests_append: "requests (h @ h') = requests h @ requests h'"
  by (induction h rule: requests.induct) auto

lemma view_Called:
  "view_of (h @ [Called q (r, b)]) =
     (case view_of h of (c, ts, ps) \<Rightarrow>
        (c @ [q], if req_no q = SYS_clock_gettime then ts @ [timespec_ns b] else ts, ps))"
  by (simp add: view_of_def requests_append clock_answers_append printed_append)

lemma view_Printed:
  "view_of (h @ [Printed t]) = (case view_of h of (c, ts, ps) \<Rightarrow> (c, ts, ps @ [t]))"
  by (simp add: view_of_def requests_append clock_answers_append printed_append)

definition viewed :: "uapi \<Rightarrow> view \<Rightarrow> (outcome \<Rightarrow> view \<Rightarrow> bool) \<Rightarrow> bool" where
  "viewed p v Q \<longleftrightarrow> (\<forall>h. view_of h = v \<longrightarrow> verified p h (\<lambda>x tr. Q x (view_of tr)))"

lemma viewedD: "viewed p ([], [], []) Q \<Longrightarrow> Q (outcome_of K p k) (view_of (trace_of K p k))"
  using verifiedI [of p "\<lambda>x tr. Q x (view_of tr)"] by (simp add: viewed_def view_of_def)

lemma viewed_Done: "Q x v \<Longrightarrow> viewed (Done x) v Q"
  by (simp add: viewed_def)

lemma viewed_libc:
  assumes "no \<noteq> SYS_clock_gettime" and "\<And>r b'. viewed (f (libc_result r) b') (c @ [Req no as b], ts, ps) Q"
  shows "viewed (libc_syscall no as b f) (c, ts, ps) Q"
  using assms by (simp add: viewed_def view_Called)

abbreviation clock :: "uapi_buf req" where
  "clock \<equiv> clock_req LP64"

lemma viewed_clock:
  assumes "\<And>t. viewed (f t) (c @ [clock], ts @ [t], ps) Q"
  shows "viewed (time_now_ns libc_syscall f) (c, ts, ps) Q"
  using assms by (simp add: viewed_def view_Called time_now_ns_def clock_req_def)

lemma viewed_put_lines:
  "viewed k (c, ts, ps @ map (\<lambda>l. l @ newline) ls) Q \<Longrightarrow> viewed (put_lines ls k) (c, ts, ps) Q"
proof (induction ls arbitrary: ps)
  case (Cons l ls)
  then have "viewed (put_lines ls k) (c, ts, ps @ [l @ newline]) Q" by simp
  then show ?case by (simp add: put_lines_def viewed_def view_Printed)
qed (simp add: put_lines_def)

text \<open>A program fragment that makes the requests \<open>rs\<close>, none of them to the clock, and prints nothing.\<close>

definition makes :: "(uapi \<Rightarrow> uapi) \<Rightarrow> uapi_buf req list \<Rightarrow> bool" where
  "makes body rs \<longleftrightarrow>
     (\<forall>k c ts ps Q. viewed k (c @ rs, ts, ps) Q \<longrightarrow> viewed (body k) (c, ts, ps) Q)"

lemma makesD: "makes body rs \<Longrightarrow> viewed k (c @ rs, ts, ps) Q \<Longrightarrow> viewed (body k) (c, ts, ps) Q"
  by (simp add: makes_def)

lemma makes_twice: "makes body rs \<Longrightarrow> makes body' rs' \<Longrightarrow> makes (\<lambda>k. body (body' k)) (rs @ rs')"
  by (simp add: makes_def)

definition times :: "nat \<Rightarrow> 'a list \<Rightarrow> 'a list" where
  "times n xs = concat (replicate n xs)"

lemma times_simps [simp]: "times 0 xs = []" "times (Suc n) xs = xs @ times n xs"
  by (simp_all add: times_def)

lemma times_times: "times m (times n xs) = times (m * n) xs"
proof -
  have "times (m + n) xs = times m xs @ times n xs" for m n by (simp add: times_def replicate_add)
  then show ?thesis by (induction m) (simp_all add: add.commute)
qed

lemma times_one: "times n [x] = replicate n x"
  by (induction n) simp_all

lemma makes_do_times:
  assumes "makes body rs"
  shows "z < n \<Longrightarrow> makes (do_times n z body) (times (n - z) rs)"
proof (induction "n - z" arbitrary: z)
  case (Suc d)
  show ?case
  proof (cases "z + 1 < n")
    case True
    with Suc have "makes (do_times n (z + 1) body) (times (n - (z + 1)) rs)" by simp
    moreover have "do_times n z body = (\<lambda>k. body (do_times n (z + 1) body k))"
      using True by (simp add: fun_eq_iff do_times.simps [of n z body])
    ultimately have "makes (do_times n z body) (rs @ times (n - (z + 1)) rs)"
      using makes_twice [OF assms] by simp
    moreover have "n - z = Suc (n - (z + 1))" using Suc.prems by simp
    ultimately show ?thesis by simp
  next
    case False
    with Suc.prems have "n - z = 1" by simp
    with False assms show ?thesis by (simp add: do_times.simps [of n z] makes_def)
  qed
qed simp

lemma makes_warm_up: "makes body rs \<Longrightarrow> makes (warm_up body) (times 2000 rs)"
  using makes_do_times [OF makes_do_times, of body rs 0 N_BATCH 0 250]
  by (simp add: warm_up_def [abs_def] N_BATCH_def times_times)

definition prctl_req :: "u64 \<Rightarrow> uapi_buf req" where
  "prctl_req option = Req SYS_prctl [Val option, Ptr, Ptr, Ptr, Ptr] (WordsBuf [0])"

definition newfstatat_req :: "uapi_buf req" where
  "newfstatat_req = Req SYS_newfstatat [Val AT_FDCWD, Val 0, Ptr, Val 0] NoBuf"

definition newfstat_req :: "uapi_buf req" where
  "newfstat_req = Req SYS_fstat [Val 0, Ptr] NoBuf"

lemma makes_calls:
  "makes (prctl_call option) [prctl_req option]" "makes newfstatat_call [newfstatat_req]" "makes newfstat_call [newfstat_req]"
  by (auto simp: makes_def prctl_call_def newfstatat_call_def newfstat_call_def prctl_req_def newfstatat_req_def
      newfstat_req_def intro: viewed_libc)

section \<open>Sampling\<close>

text \<open>The samples that clock answers give, two answers each, and the requests of one sample.\<close>

fun samples_of :: "u64 list \<Rightarrow> u64 list" where
  "samples_of (t0 # t1 # ts) = (t1 - t0) div of_nat N_BATCH # samples_of ts"
| "samples_of ts = []"

definition sample :: "uapi_buf req \<Rightarrow> uapi_buf req list" where
  "sample r = clock # replicate 8 r @ [clock]"

lemma viewed_sample_loop:
  assumes "makes call [r]"
    and "\<And>ts'. length ts' = 2 * (n - i) \<Longrightarrow>
      viewed (k (take i samples @ samples_of ts') (tot + sum_list (samples_of ts')))
        (c @ times (n - i) (sample r), ts @ ts', ps) Q"
    and "length samples = n" and "i < n"
  shows "viewed (sample_loop call n i samples tot k) (c, ts, ps) Q"
  using assms(2-)
proof (induction "n - i" arbitrary: i samples tot c ts)
  case (Suc d)
  have batch: "makes (do_times N_BATCH 0 call) (replicate 8 r)"
    using makes_do_times [OF assms(1), of 0 N_BATCH] unfolding times_one by (simp add: N_BATCH_def)
  have left: "n - i = Suc (n - (i + 1))" using Suc.prems(3) by simp
  have step: "viewed (if i + 1 < n then sample_loop call n (i + 1) (samples[i := s]) (tot + s) k
        else k (samples[i := s]) (tot + s)) (c @ sample r, ts @ [t0, t1], ps) Q"
    if s: "s = (t1 - t0) div of_nat N_BATCH" for t0 t1 s
  proof (cases "i + 1 < n")
    case True
    have "viewed (sample_loop call n (i + 1) (samples[i := s]) (tot + s) k) (c @ sample r, ts @ [t0, t1], ps) Q"
    proof (rule Suc.hyps(1))
      fix ts' :: "u64 list" assume "length ts' = 2 * (n - (i + 1))"
      then have "length (t0 # t1 # ts') = 2 * (n - i)" using True by simp
      from Suc.prems(1) [OF this]
      have "viewed (k (take i samples @ s # samples_of ts') (tot + (s + sum_list (samples_of ts'))))
          (c @ sample r @ times (n - (i + 1)) (sample r), ts @ t0 # t1 # ts', ps) Q"
        unfolding left by (simp add: s)
      moreover have "take (i + 1) (samples[i := s]) = take i samples @ [s]"
        using Suc.prems by (simp add: take_Suc_conv_app_nth)
      ultimately show "viewed (k (take (i + 1) (samples[i := s]) @ samples_of ts') (tot + s + sum_list (samples_of ts')))
          ((c @ sample r) @ times (n - (i + 1)) (sample r), (ts @ [t0, t1]) @ ts', ps) Q"
        by (simp add: add.assoc)
    qed (use Suc True in simp_all)
    with True show ?thesis by simp
  next
    case False
    with Suc.prems have n: "n = Suc i" by simp
    have "viewed (k (take i samples @ [s]) (tot + s)) (c @ sample r, ts @ [t0, t1], ps) Q"
      using Suc.prems(1) [of "[t0, t1]"] n by (simp add: s)
    moreover have "samples[i := s] = take i samples @ [s]"
      using Suc.prems n by (simp add: list_eq_iff_nth_eq nth_append nth_list_update less_Suc_eq)
    ultimately show ?thesis using False by simp
  qed
  show ?case
    using Suc.prems(2,3)
    by (subst sample_loop.simps, intro viewed_clock makesD [OF batch])
      (use step [OF refl] in \<open>simp add: Let_def sample_def split del: if_split cong: if_cong\<close>)
qed simp

section \<open>Ranks\<close>

lemma rank_counts:
  assumes "sorted s" and "i < length s"
  shows "i + 1 \<le> length (filter (\<lambda>x. x \<le> s ! i) s)" and "length s - i \<le> length (filter (\<lambda>x. s ! i \<le> x) s)"
proof -
  have "filter (\<lambda>x. x \<le> s ! i) (take (i + 1) s) = take (i + 1) s"
    using assms by (intro filter_True) (auto simp: in_set_conv_nth intro!: sorted_nth_mono)
  then have "filter (\<lambda>x. x \<le> s ! i) s = take (i + 1) s @ filter (\<lambda>x. x \<le> s ! i) (drop (i + 1) s)"
    by (metis append_take_drop_id filter_append)
  then show "i + 1 \<le> length (filter (\<lambda>x. x \<le> s ! i) s)" using assms(2) by simp
  have "filter (\<lambda>x. s ! i \<le> x) (drop i s) = drop i s"
    using assms by (intro filter_True) (auto simp: in_set_conv_nth intro!: sorted_nth_mono)
  then have "filter (\<lambda>x. s ! i \<le> x) s = filter (\<lambda>x. s ! i \<le> x) (take i s) @ drop i s"
    by (metis append_take_drop_id filter_append)
  then show "length s - i \<le> length (filter (\<lambda>x. s ! i \<le> x) s)" by simp
qed

section \<open>Properties\<close>

text \<open>
  The comparison function satisfies what \<open>qsort\<close> needs of it, and no two different samples
  compare as equal: every rearrangement of the samples that is in its order is the same list, the
  sorted one, whichever algorithm the C library uses.
\<close>

theorem qsort_deterministic:
  assumes "mset ys = mset xs" and "sorted_wrt (\<lambda>a b. compare_ull a b \<le>s 0) ys"
  shows "ys = sort xs \<and> qsort compare_ull xs = sort xs"
  using ull.qsort_unique [OF assms(2,1)] by (simp add: qsort_ull)

lemma qsort_deterministic_witness: "[3, 5, 5, 9 :: u64] = sort [5, 9, 3, 5] \<and> qsort compare_ull [5, 9, 3, 5] = sort [5, 9, 3, 5]"
  by (rule qsort_deterministic) (simp_all add: compare_ull_le)

text \<open>
  C33: the median of a thousand samples is one of them; at least 501 samples are not greater and at
  least 500 are not less.
\<close>

theorem median_bounds:
  assumes "length samples = N_ITERATIONS"
  shows "median samples \<in> set samples \<and>
    501 \<le> length (filter (\<lambda>x. x \<le> median samples) samples) \<and>
    500 \<le> length (filter (\<lambda>x. median samples \<le> x) samples)"
proof -
  let ?s = "sort samples"
  have len: "length ?s = 1000" using assms by (simp add: N_ITERATIONS_def)
  have m: "median samples = ?s ! 500" by (simp add: median_def qsort_ull N_ITERATIONS_def)
  have count: "length (filter P samples) = length (filter P ?s)" for P
    by (metis mset_filter mset_sort size_mset)
  have "?s ! 500 \<in> set ?s" using len by (intro nth_mem) simp
  then show ?thesis
    using rank_counts [of ?s 500] len unfolding m count by simp
qed

lemma median_bounds_witness:
  "median (replicate 999 4 @ [7]) \<in> set (replicate 999 4 @ [7]) \<and>
    501 \<le> length (filter (\<lambda>x. x \<le> median (replicate 999 4 @ [7])) (replicate 999 4 @ [7])) \<and>
    500 \<le> length (filter (\<lambda>x. median (replicate 999 4 @ [7]) \<le> x) (replicate 999 4 @ [7]))"
  by (rule median_bounds) (simp add: N_ITERATIONS_def)

lemma sint_average: "sint (average t) = uint t div 1000" and uint_average: "uint (average t) = uint t div 1000"
proof -
  have u: "uint (average t) = uint t div 1000"
    by (simp add: average_def N_ITERATIONS_def uint_div)
  have "uint t < 2 ^ 64" using uint_lt2p [of t] by simp
  then have "uint (average t) < 2 ^ 63" unfolding u by (simp add: div_less_iff_less_mult)
  then have "sint (average t) = uint (average t)"
    unfolding sint_uint by (intro signed_take_bit_int_eq_self order_trans [OF _ uint_ge_0 [of "average t"]]) simp_all
  with u show "sint (average t) = uint t div 1000" "uint (average t) = uint t div 1000" by simp_all
qed

lemma slower:
  assumes "Fin c \<le> overhead (uint a) (uint (b :: u64))" and "0 < c"
  shows "b < a"
proof (rule ccontr)
  assume "\<not> b < a"
  then have "overhead (uint a) (uint b) = NaN \<or> overhead (uint a) (uint b) \<le> Fin 0"
    using uint_lt2p [of b] by (intro overhead_nonpos) (simp_all add: not_less word_le_def)
  with assms show False by (cases "overhead (uint a) (uint b)") auto
qed

lemma much_slower:
  assumes "0 < b" and "2 * uint b \<le> uint (a :: u64)"
  shows "Fin 100 \<le> overhead (uint a) (uint b)"
  using assms uint_lt2p [of a] by (intro overhead_doubled) (simp_all add: word_less_def)

text \<open>
  C16: the verdict of the prctl program is sound and reacts: it reports a confidence only when the
  median and the average of the 0xDEADBEEF calls are both strictly greater than those of the other
  calls, in spite of the rounding and of a zero divisor; and when both are at least twice as
  large it reports high confidence.
\<close>

theorem verdict_sound:
  "(if last (prctl_report d td f tf) = try_again then True
    else median f < median d \<and> average tf < average td) \<and>
   (if 0 < median f \<and> 2 * uint (median f) \<le> uint (median d) \<and> 0 < average tf \<and> 2 * uint (average tf) \<le> uint (average td)
    then last (prctl_report d td f tf) = confidence_high else True)"
proof -
  let ?m = "overhead (uint (median d)) (uint (median f))"
  let ?a = "overhead (uint (average td)) (uint (average tf))"
  have last: "last (prctl_report d td f tf) = verdict ?m ?a"
    by (simp add: prctl_report_def Let_def sint_average uint_average)
  have "median f < median d \<and> average tf < average td" if "verdict ?m ?a \<noteq> try_again"
  proof -
    have "Fin (3 / 2) \<le> ?m" "Fin (3 / 2) \<le> ?a \<or> Fin (1 / 2) \<le> ?a"
      using that by (auto simp: verdict_def less_binary64_def split: if_splits)
    then show ?thesis using slower by fastforce
  qed
  moreover have "Fin (3 / 2) \<le> x" if "Fin 100 \<le> x" for x
    using that by (cases x) auto
  ultimately show ?thesis
    unfolding last using much_slower [of "median f" "median d"] much_slower [of "average tf" "average td"]
    by (auto simp: verdict_def)
qed

text \<open>Warming up with two requests 2000 times, then a thousand samples of eight requests.\<close>

definition phase :: "uapi_buf req \<Rightarrow> uapi_buf req \<Rightarrow> uapi_buf req \<Rightarrow> uapi_buf req list" where
  "phase w1 w2 r = times 2000 [w1, w2] @ times 1000 (sample r)"

definition pin_req :: "uapi_buf req" where
  "pin_req = Req SYS_sched_setaffinity [Val 0, Val 128, Ptr] (WordsBuf (1 # replicate 15 0))"

lemma two_phases:
  assumes "makes call1 [r1]" and "makes call2 [r2]" and "makes warm1 [v1, w1]" and "makes warm2 [v2, w2]"
    and "length s1 = N_ITERATIONS" and "length s2 = N_ITERATIONS"
    and "\<And>ts1 ts2. length ts1 = 2000 \<Longrightarrow> length ts2 = 2000 \<Longrightarrow>
      Q (Exited 0) (pin_req # phase v1 w1 r1 @ phase v2 w2 r2, ts1 @ ts2,
        map (\<lambda>l. l @ newline) (rep (samples_of ts2) (sum_list (samples_of ts2)) (samples_of ts1) (sum_list (samples_of ts1))))"
  shows "viewed (pin_to_core (warm_up warm1 (sample_loop call1 N_ITERATIONS 0 s1 0 (\<lambda>s1 t1.
      warm_up warm2 (sample_loop call2 N_ITERATIONS 0 s2 0 (\<lambda>s2 t2.
        put_lines (rep s2 t2 s1 t1) (Done (Exited 0)))))))) ([], [], []) Q"
  unfolding pin_to_core_def
  by (intro viewed_libc makesD [OF makes_warm_up [OF assms(3)]] makesD [OF makes_warm_up [OF assms(4)]]
      viewed_sample_loop [OF assms(1)] viewed_sample_loop [OF assms(2)] viewed_put_lines viewed_Done)
    (use assms(5-7) in \<open>simp_all add: N_ITERATIONS_def phase_def pin_req_def\<close>)

text \<open>
  C15: both programs always end with status 0 after exactly these calls in this order: one to
  pin the process, then twice a phase of 4000 calls to warm up and a thousand samples, each eight calls between
  two readings of the clock. The first phase of the prctl program uses 0xFFFFFFFF throughout, the
  second warms up with 0xDEADBEED and 0xDEADBEEE in turn and times 0xDEADBEEF. They print the report on
  the samples and sums that the readings give, whatever the arrays held before.
\<close>

theorem timing_runs:
  assumes "length d = N_ITERATIONS" and "length f = N_ITERATIONS"
  shows "(let tr = trace_of K (prctl_abuse_main d f) k; ts = clock_answers tr;
              nop = samples_of (take 2000 ts); real = samples_of (drop 2000 ts)
          in outcome_of K (prctl_abuse_main d f) k = Exited 0 \<and> length ts = 4000 \<and>
             requests tr = pin_req # phase (prctl_req 0xFFFFFFFF) (prctl_req 0xFFFFFFFF) (prctl_req 0xFFFFFFFF) @
               phase (prctl_req 0xDEADBEED) (prctl_req 0xDEADBEEE) (prctl_req 0xDEADBEEF) \<and>
             printed tr = map (\<lambda>l. l @ newline) (prctl_report real (sum_list real) nop (sum_list nop))) \<and>
    (let tr = trace_of K (stat_bench_main d f) k; ts = clock_answers tr;
         pathed = samples_of (take 2000 ts); plain = samples_of (drop 2000 ts)
     in outcome_of K (stat_bench_main d f) k = Exited 0 \<and> length ts = 4000 \<and>
        requests tr = pin_req # phase newfstatat_req newfstatat_req newfstatat_req @
          phase newfstat_req newfstat_req newfstat_req \<and>
        printed tr = map (\<lambda>l. l @ newline) (stat_report plain (sum_list plain) pathed (sum_list pathed)))"
proof -
  have warm: "makes (\<lambda>k. prctl_call a (prctl_call b k)) [prctl_req a, prctl_req b]"
    "makes (\<lambda>k. newfstatat_call (newfstatat_call k)) [newfstatat_req, newfstatat_req]"
    "makes (\<lambda>k. newfstat_call (newfstat_call k)) [newfstat_req, newfstat_req]" for a b
    using makes_twice [OF makes_calls(1) makes_calls(1)] makes_twice [OF makes_calls(2) makes_calls(2)]
      makes_twice [OF makes_calls(3) makes_calls(3)] by simp_all
  have "viewed (prctl_abuse_main d f) ([], [], []) (\<lambda>x (c, ts, ps).
      let nop = samples_of (take 2000 ts); real = samples_of (drop 2000 ts)
      in x = Exited 0 \<and> length ts = 4000 \<and>
         c = pin_req # phase (prctl_req 0xFFFFFFFF) (prctl_req 0xFFFFFFFF) (prctl_req 0xFFFFFFFF) @
               phase (prctl_req 0xDEADBEED) (prctl_req 0xDEADBEEE) (prctl_req 0xDEADBEEF) \<and>
         ps = map (\<lambda>l. l @ newline) (prctl_report real (sum_list real) nop (sum_list nop)))"
    unfolding prctl_abuse_main_def
    by (rule two_phases [OF makes_calls(1) makes_calls(1) warm(1) warm(1) assms(2,1)]) simp
  moreover have "viewed (stat_bench_main d f) ([], [], []) (\<lambda>x (c, ts, ps).
      let pathed = samples_of (take 2000 ts); plain = samples_of (drop 2000 ts)
      in x = Exited 0 \<and> length ts = 4000 \<and>
         c = pin_req # phase newfstatat_req newfstatat_req newfstatat_req @ phase newfstat_req newfstat_req newfstat_req \<and>
         ps = map (\<lambda>l. l @ newline) (stat_report plain (sum_list plain) pathed (sum_list pathed)))"
    unfolding stat_bench_main_def
    by (rule two_phases [OF makes_calls(2) makes_calls(3) warm(2,3) assms(2,1)]) simp
  ultimately show ?thesis
    using viewedD by (fastforce simp: view_of_def Let_def)
qed

lemma timing_runs_witness:
  "outcome_of script (prctl_abuse_main (replicate 1000 0) (replicate 1000 0)) [(0, NoBuf)] = Exited 0 \<and>
   requests (trace_of script (prctl_abuse_main (replicate 1000 0) (replicate 1000 0)) [(0, NoBuf)]) =
     pin_req # phase (prctl_req 0xFFFFFFFF) (prctl_req 0xFFFFFFFF) (prctl_req 0xFFFFFFFF) @
       phase (prctl_req 0xDEADBEED) (prctl_req 0xDEADBEEE) (prctl_req 0xDEADBEEF)"
  using timing_runs [of "replicate 1000 0" "replicate 1000 0" script "[(0, NoBuf)]"]
  by (simp add: N_ITERATIONS_def Let_def)

end
