(* ===== verification/KsuTools.thy ===== *)
theory KsuTools
  imports AppProfile
begin

text \<open>
  The small KernelSU probes: \<open>kernelsu/ksu_fd/ksu_fd.c\<close> and \<open>ksu_fd_disable.c\<close> (the reboot
  supercall and its ioctls) and the four programs of \<open>kernelsu/ksu_prctl_test/\<close> (the older
  prctl interface). \<open>ioctl\<close> of the C library is the model's \<open>ioctl\<close>.
\<close>

section \<open>The descriptor interface\<close>

definition ksu_info_t :: ctype where
  "ksu_info_t = Struct (Field ''version'' u32_t (Field ''flags'' u32_t (Field ''features'' u32_t NoField)))"

definition ksu_set_feature_t :: ctype where
  "ksu_set_feature_t = Struct (Field ''feature_id'' u32_t (Field ''value'' u64_t NoField))"

definition KSU_IOCTL_SET_FEATURE :: clong where
  "KSU_IOCTL_SET_FEATURE = IOC 1 CHR ''K'' 14 0"

definition say_line :: "string \<Rightarrow> uapi \<Rightarrow> uapi" where
  "say_line t p = puts (t @ newline) p"

definition info_word :: "string \<Rightarrow> image \<Rightarrow> u32" where
  "info_word name img = le_word32 (get_at (the (offset_of ksu_info_t [name])) 4 img)"

definition msg_reboot_failed :: string where "msg_reboot_failed = ''sys_reboot failed''"
definition msg_info_failed :: string where "msg_info_failed = ''[-] KSU_IOCTL_GET_INFO failed''"
definition msg_feature_failed :: string where "msg_feature_failed = ''[-] KSU_IOCTL_SET_FEATURE failed''"
definition msg_fd :: "cint \<Rightarrow> string" where "msg_fd fd = ''[+] fd : '' @ fmt_d fd"
definition msg_version :: "u32 \<Rightarrow> string" where "msg_version v = ''[+] ksuver: '' @ fmt_d v"
definition msg_flags :: "u32 \<Rightarrow> string" where "msg_flags v = ''[+] flags: 0x'' @ fmt_x v"
definition msg_features :: "u32 \<Rightarrow> string" where "msg_features v = ''[+] features: 0x'' @ fmt_x v"

definition info_lines :: "image \<Rightarrow> uapi \<Rightarrow> uapi" where
  "info_lines info p =
     say_line (msg_version (info_word ''version'' info))
      (say_line (msg_flags (info_word ''flags'' info))
        (say_line (msg_features (info_word ''features'' info)) p))"

definition close_and_return :: "cint \<Rightarrow> uapi" where
  "close_and_return fd = libc_syscall SYS_close [Val (scast fd)] NoBuf (\<lambda>_ _. Done (Exited 0))"

definition ask_fd :: "(cint \<Rightarrow> uapi) \<Rightarrow> uapi" where
  "ask_fd k =
     libc_syscall SYS_reboot [Val KSU_INSTALL_MAGIC1, Val KSU_INSTALL_MAGIC2, Val 0, Ptr] (FdBuf 0) (\<lambda>_ b.
       let fd = fd_after b 0
       in if fd = 0 then say_line msg_reboot_failed (Done (Exited 1))
          else say_line (msg_fd fd) (k fd))"

definition ksu_fd_main :: uapi where
  "ksu_fd_main = ask_fd (\<lambda>fd.
     let info = replicate (csizeof ksu_info_t) 0
     in ioctl fd KSU_IOCTL_GET_INFO_LEGACY (InfoBuf info) (\<lambda>r b.
       let ret = ucast r :: cint; info = image_after b info
       in if ret <s 0 then say_line msg_info_failed (close_and_return fd)
          else info_lines info (close_and_return fd)))"

definition ksu_fd_disable_main :: uapi where
  "ksu_fd_disable_main = ask_fd (\<lambda>fd.
     let info = replicate (csizeof ksu_info_t) 0
     in ioctl fd KSU_IOCTL_GET_INFO_LEGACY (InfoBuf info) (\<lambda>r b.
       let ret = ucast r :: cint; info = image_after b info;
           rest = info_lines info
             (let cmd = replicate (csizeof ksu_set_feature_t) 0;
                  cmd = put_at (the (offset_of ksu_set_feature_t [''feature_id''])) (le_bytes 1) cmd;
                  cmd = put_at (the (offset_of ksu_set_feature_t [''value''])) (le_bytes 0 @ le_bytes 0) cmd
              in ioctl fd KSU_IOCTL_SET_FEATURE (FeatureBuf cmd) (\<lambda>r b.
                   let ret = ucast r :: cint
                   in if ret <s 0 then say_line msg_feature_failed (close_and_return fd)
                      else close_and_return fd))
       in if ret <s 0 then say_line msg_info_failed rest else rest))"

section \<open>The prctl interface\<close>

definition fmt_p :: "u64 \<Rightarrow> string" where
  "fmt_p p = ''0x'' @ show_base 16 (unat p)"

definition fmt_lx :: "u64 \<Rightarrow> string" where
  "fmt_lx x = show_base 16 (unat x)"

definition words_after :: "uapi_buf \<Rightarrow> clong list \<Rightarrow> clong list" where
  "words_after b old = (case b of WordsBuf ws \<Rightarrow> if length ws = length old then ws else old | _ \<Rightarrow> old)"

definition comma :: string where "comma = '', ''"

text \<open>\<open>addr\<close> are the addresses of the locals \<open>arg3\<close>, \<open>arg4\<close> and \<open>arg5\<close>, which \<open>%p\<close> prints.\<close>

definition prctl_line :: "u64 \<Rightarrow> u64 \<Rightarrow> string list \<Rightarrow> string" where
  "prctl_line option arg2 rest =
     ''SYS_prctl('' @ fmt_lu option @ comma @ fmt_lu arg2 @ comma @ rest ! 0 @ comma @ rest ! 1 @ comma @ rest ! 2 @ '')''"

definition ksu_prctl_main :: "u64 \<times> u64 \<times> u64 \<Rightarrow> string list \<Rightarrow> uapi" where
  "ksu_prctl_main addr argv =
     (if length argv \<noteq> 6 then
        (case argv_at argv 0 of
           Str a \<Rightarrow> say_line (''Usage: '' @ a @ '' option arg2 arg3 arg4 arg5'') (Done (Exited 1))
         | _ \<Rightarrow> Done Faulted)
      else
        (let option = strtoul0 (argv ! 1); arg2 = strtoul0 (argv ! 2); arg3 = strtoul0 (argv ! 3);
             arg4 = strtoul0 (argv ! 4); arg5 = strtoul0 (argv ! 5); (p3, p4, p5) = addr
         in say_line (prctl_line option arg2 [fmt_p p3, fmt_p p4, fmt_p p5])
              (libc_syscall SYS_prctl [Val option, Val arg2, Ptr, Ptr, Ptr] (WordsBuf [arg3, arg4, arg5]) (\<lambda>_ b.
                let ws = words_after b [arg3, arg4, arg5]
                in say_line (''arg3: '' @ fmt_lu (ws ! 0))
                  (say_line (''arg4: '' @ fmt_lu (ws ! 1))
                    (say_line (''arg5: 0x'' @ fmt_lx (ws ! 2)) (Done (Exited 0))))))))"

definition ksu_prctl_arg3_main :: "u64 \<times> u64 \<Rightarrow> string list \<Rightarrow> uapi" where
  "ksu_prctl_arg3_main addr argv =
     (if length argv \<noteq> 6 then
        (case argv_at argv 0 of
           Str a \<Rightarrow> say_line (''Usage: '' @ a @ '' option arg2 arg3 arg4 arg5'') (Done (Exited 1))
         | _ \<Rightarrow> Done Faulted)
      else
        (let option = strtoul0 (argv ! 1); arg2 = strtoul0 (argv ! 2); arg3 = strtoul0 (argv ! 3);
             arg4 = strtoul0 (argv ! 4); arg5 = strtoul0 (argv ! 5); (p4, p5) = addr
         in say_line (prctl_line option arg2 [fmt_lu arg3, fmt_p p4, fmt_p p5])
              (libc_syscall SYS_prctl [Val option, Val arg2, Val arg3, Ptr, Ptr] (WordsBuf [arg4, arg5]) (\<lambda>_ b.
                let ws = words_after b [arg4, arg5]
                in say_line (''arg4: '' @ fmt_lu (ws ! 0))
                    (say_line (''arg5: 0x'' @ fmt_lx (ws ! 1)) (Done (Exited 0)))))))"

text \<open>\<open>sp\<close> is the address of the string \<open>argv[3]\<close>; the kernel gets that pointer.\<close>

definition ksu_prctl_string_main :: "u64 \<Rightarrow> u64 \<times> u64 \<times> u64 \<Rightarrow> string list \<Rightarrow> uapi" where
  "ksu_prctl_string_main sp addr argv =
     (if length argv \<noteq> 4 then
        (case argv_at argv 0 of
           Str a \<Rightarrow> say_line (''Usage: '' @ a @ '' <option> <option> <string>'') (Done (Exited 1))
         | _ \<Rightarrow> Done Faulted)
      else
        (let option = strtoul0 (argv ! 1); arg2 = strtoul0 (argv ! 2); (p3, p4, p5) = addr
         in say_line (prctl_line option arg2 [fmt_p p3, fmt_p p4, fmt_p p5])
              (libc_syscall SYS_prctl [Val option, Val arg2, Val sp, Ptr, Ptr] (WordsBuf [0, 0]) (\<lambda>_ b.
                let ws = words_after b [0, 0]
                in say_line (''arg3: '' @ fmt_lu sp)
                  (say_line (''arg4: '' @ fmt_lu (ws ! 0))
                    (say_line (''arg5: 0x'' @ fmt_lx (ws ! 1)) (Done (Exited 0))))))))"

text \<open>
  The digit loop of \<open>ksu_prctl_02_only.c\<close>: one step writes the last digit of the number at index
  \<open>i\<close>; it ends after the step for index 0.
\<close>

fun digit_loop :: "nat \<Rightarrow> u64 \<Rightarrow> u8 list \<Rightarrow> u8 list" where
  "digit_loop 0 arg3 ds = ds[0 := ucast (48 + (arg3 mod 10))]"
| "digit_loop (Suc i) arg3 ds = digit_loop i (arg3 div 10) (ds[Suc i := ucast (48 + (arg3 mod 10))])"

definition version_digits :: "u64 \<Rightarrow> u8 list" where
  "version_digits arg3 = (digit_loop 4 (arg3 mod 100000) (replicate 6 0))[5 := 10]"

definition ksu_prctl_02_main :: uapi where
  "ksu_prctl_02_main =
     libc_syscall SYS_prctl [Val 0xdeadbeef, Val 2, Ptr, Ptr, Ptr] (WordsBuf [0, 0, 0]) (\<lambda>_ b.
       let arg3 = words_after b [0, 0, 0] ! 0
       in if 10000 < arg3 then
            libc_syscall SYS_write [Val 1, Ptr, Val 6] (TextBuf (map byte_char (version_digits arg3))) (\<lambda>_ _. Done (Exited 0))
          else libc_syscall SYS_write [Val 2, Ptr, Val 5] (TextBuf (''fail'' @ newline)) (\<lambda>_ _. Done (Exited 0)))"

section \<open>The printed version\<close>

lemma digit_byte: "unat (ucast (48 + (x mod 10 :: u64)) :: u8) = 48 + unat x mod 10"
proof -
  have "unat x mod 10 < 10" by simp
  then have "unat (48 + (x mod 10)) = 48 + unat x mod 10"
    by (subst unat_add_lem [THEN iffD1]) (simp_all add: unat_mod)
  then show ?thesis
    using \<open>unat x mod 10 < 10\<close> by (simp add: unsigned_ucast_eq take_bit_nat_eq_self)
qed

definition digit_byte_of :: "nat \<Rightarrow> u8" where
  "digit_byte_of d = of_nat (48 + d)"

lemma unat_digit_byte_of [simp]: "d < 10 \<Longrightarrow> unat (digit_byte_of d) = 48 + d"
  by (simp only: digit_byte_of_def unat_of_nat) (simp add: take_bit_nat_eq_self)

lemma digit_loop_padded:
  "i < length ds \<Longrightarrow> digit_loop i n ds = map digit_byte_of (padded (Suc i) (unat n)) @ drop (Suc i) ds"
proof (induction i arbitrary: n ds)
  case 0
  have "ucast (48 + n mod 10) = digit_byte_of (unat n mod 10)"
    by (simp add: word_unat_eq_iff digit_byte)
  with 0 show ?case by (cases ds) simp_all
next
  case (Suc i)
  let ?ds = "ds[Suc i := ucast (48 + n mod 10)]"
  have "ucast (48 + n mod 10) = digit_byte_of (unat n mod 10)"
    by (simp add: word_unat_eq_iff digit_byte)
  then have "drop (Suc i) ?ds = digit_byte_of (unat n mod 10) # drop (Suc (Suc i)) ds"
    using Suc.prems by (simp flip: Cons_nth_drop_Suc)
  with Suc.IH [of ?ds "n div 10"] Suc.prems show ?case
    by (simp add: unat_div)
qed

interpretation version: decimal_writer "\<lambda>n len buf. Some (digit_loop (len - 1) n buf)" digit_byte_of "\<lambda>b. Some (unat b - 48)"
  by unfold_locales (simp_all add: digit_loop_padded)

text \<open>
  \<open>ksu_prctl_02_only\<close> writes the version as exactly five decimal digits and a newline; read
  back they are the version modulo 100000, so versions of six digits lose their leading ones.
\<close>

theorem version_digits_read_back:
  "length (version_digits n) = 6 \<and> version_digits n ! 5 = 10 \<and>
   list_all (\<lambda>b. 48 \<le> b \<and> b \<le> 57) (take 5 (version_digits n)) \<and>
   horner 10 (map (\<lambda>b. unat b - 48) (take 5 (version_digits n))) = unat n mod 100000"
proof -
  obtain ds where ds: "digit_loop 4 (n mod 100000) (replicate 6 0) = ds @ [0]" "length ds = 5"
    "map_option (horner 10) (those (map (\<lambda>b. Some (unat b - 48)) ds)) = Some (unat (n mod 100000) mod 10 ^ 5)"
    using version.read_back [of 5 "replicate 6 0" "n mod 100000"] by auto
  have v: "version_digits n = ds @ [10]"
    using ds(2) by (simp add: version_digits_def ds(1) list_update_append)
  have "those (map (\<lambda>b. Some (unat b - 48)) bs) = Some (map (\<lambda>b. unat b - 48) bs)" for bs :: "u8 list"
    by (induction bs) simp_all
  then have val: "horner 10 (map (\<lambda>b. unat b - 48) ds) = unat n mod 100000"
    using ds(3) by (simp add: unat_mod)
  have "ds = map digit_byte_of (padded 5 (unat (n mod 100000)))"
    using ds(1) digit_loop_padded [of 4 "replicate 6 0" "n mod 100000"]
    by (simp only: length_replicate drop_replicate) simp
  then have "list_all (\<lambda>b. 48 \<le> b \<and> b \<le> 57) ds"
    using padded_bound [of _ 5 "unat (n mod 100000)"]
    by (force simp: list_all_iff word_le_nat_alt)
  with val ds(2) show ?thesis by (simp add: v nth_append)
qed

section \<open>What the descriptor probes leave behind\<close>

definition fd_probe_end :: "outcome \<Rightarrow> uapi_buf event list \<Rightarrow> bool" where
  "fd_probe_end out tr \<longleftrightarrow>
     (\<exists>r b. hd tr = Called (Req SYS_reboot [Val KSU_INSTALL_MAGIC1, Val KSU_INSTALL_MAGIC2, Val 0, Ptr] (FdBuf 0)) (r, b) \<and>
        (if fd_after b 0 = 0 then out = Exited 1 \<and> tl tr = [Printed (msg_reboot_failed @ newline)]
         else out = Exited 0 \<and> (\<exists>r. last tr = Called (Req SYS_close [Val (scast (fd_after b 0))] NoBuf) r)))"

definition umount_off :: "uapi_buf event \<Rightarrow> bool" where
  "umount_off e =
     (case e of
        Called q _ \<Rightarrow> req_no q = SYS_ioctl \<and> tl (req_args q) = [Val KSU_IOCTL_SET_FEATURE, Ptr] \<and>
          req_buf q = FeatureBuf ([1, 0, 0, 0] @ replicate 12 0)
      | _ \<Rightarrow> False)"

lemma umount_off_request:
  "umount_off (Called (Req SYS_ioctl [Val (scast fd), Val KSU_IOCTL_SET_FEATURE, Ptr]
     (FeatureBuf ([1, 0, 0, 0] @ replicate 12 0))) r)"
  by (simp add: umount_off_def)

lemma set_feature_image:
  "put_at (the (offset_of ksu_set_feature_t [''value''])) (le_bytes 0 @ le_bytes 0)
     (put_at (the (offset_of ksu_set_feature_t [''feature_id''])) (le_bytes 1)
       (replicate (csizeof ksu_set_feature_t) 0)) = [1, 0, 0, 0] @ replicate 12 0"
proof -
  have "the (offset_of ksu_set_feature_t [''value'']) = 8" "the (offset_of ksu_set_feature_t [''feature_id'']) = 0"
    "csizeof ksu_set_feature_t = 16"
    by (simp_all add: ksu_set_feature_t_def u32_t_def u64_t_def member_def align_up_def)
  moreover have "le_bytes 0 = [0, 0, 0, 0]" "le_bytes 1 = [1, 0, 0, 0]"
    by (simp_all add: le_bytes_def)
  moreover have "replicate 16 (0 :: u8) = [0,0,0,0,0,0,0,0,0,0,0,0,0,0,0,0]" "replicate 12 (0 :: u8) = [0,0,0,0,0,0,0,0,0,0,0,0]"
    by (simp_all add: eval_nat_numeral)
  ultimately show ?thesis by (simp add: put_at_def)
qed

text \<open>
  On every kernel the two probes either get no descriptor, say so and return 1, or return 0 with
  the close of the descriptor they got as their last call; \<open>ksu_fd_disable\<close> in the second case
  has switched feature 1 (kernel umount) to 0, even when the information request failed.
\<close>

theorem fd_probes_close:
  "fd_probe_end (outcome_of K ksu_fd_main k) (trace_of K ksu_fd_main k) \<and>
   fd_probe_end (outcome_of K ksu_fd_disable_main k) (trace_of K ksu_fd_disable_main k) \<and>
   (if outcome_of K ksu_fd_disable_main k = Exited 0
    then list_ex umount_off (trace_of K ksu_fd_disable_main k) else True)"
proof -
  let ?Q = "\<lambda>out tr. fd_probe_end out tr \<and> (out = Exited 0 \<longrightarrow> list_ex umount_off tr)"
  have fd: "verified ksu_fd_main [] fd_probe_end"
    by (simp add: ksu_fd_main_def ask_fd_def info_lines_def close_and_return_def say_line_def ioctl_def
        fd_probe_end_def Let_def)
  have disable: "verified ksu_fd_disable_main [] ?Q"
    unfolding ksu_fd_disable_main_def Let_def set_feature_image
    by (simp add: ask_fd_def info_lines_def close_and_return_def say_line_def ioctl_def
        fd_probe_end_def umount_off_request [simplified] Let_def)
  show ?thesis using verifiedI [OF fd, of K k] verifiedI [OF disable, of K k] by simp
qed

end
