(* ===== verification/Sulog.thy ===== *)
theory Sulog
  imports KsuTools "HOL-Library.Signed_Division"
begin

text \<open>
  The log reader \<open>sulog_test/sulog_test.c\<close>: it asks the driver for a ring of a hundred packed entries
  and the index of the next one, and prints the ring from the oldest entry to the newest. The driver
  is not part of the repository; what a ring of appended entries looks like is the specification here.
\<close>

section \<open>The reader\<close>

text \<open>\<open>struct sulog_entry\<close> is packed: its 32-bit \<open>uid\<close> has alignment 1.\<close>

definition sulog_entry_t :: ctype where
  "sulog_entry_t = Struct (Field ''symbol'' char_t (Field ''uid'' (Arr 4 char_t) NoField))"

type_synonym sulog_entry = "u8 \<times> u32"

definition SULOG_ENTRY_MAX :: nat where "SULOG_ENTRY_MAX = 100"

definition SULOG_BUFSIZ :: nat where "SULOG_BUFSIZ = SULOG_ENTRY_MAX * csizeof sulog_entry_t"

definition sulog_reply :: "uapi_buf \<Rightarrow> u64 \<times> image \<Rightarrow> u64 \<times> image" where
  "sulog_reply b old =
     (case b of SulogBuf n buf \<Rightarrow> if length buf = length (snd old) then (n, buf) else old | _ \<Rightarrow> old)"

text \<open>A signed addition that leaves the range of \<open>int\<close> is undefined; \<open>%\<close> keeps the dividend's sign.\<close>

definition int_add :: "cint \<Rightarrow> nat \<Rightarrow> int option" where
  "int_add a i = (let s = sint a + int i in if s < 2 ^ 31 then Some s else None)"

definition entry_at :: "image \<Rightarrow> int \<Rightarrow> sulog_entry option" where
  "entry_at buf idx =
     (let p = idx * int (csizeof sulog_entry_t)
      in if 0 \<le> p \<and> p + int (csizeof sulog_entry_t) \<le> int (length buf)
         then Some (buf ! nat p, le_word32 (get_at (nat p + the (offset_of sulog_entry_t [''uid''])) 4 buf))
         else None)"

definition sulog_slot :: "image \<Rightarrow> cint \<Rightarrow> nat \<Rightarrow> sulog_entry option" where
  "sulog_slot buf start i = do { s \<leftarrow> int_add start i; entry_at buf (s smod int SULOG_ENTRY_MAX) }"

definition sulog_line :: "nat \<Rightarrow> sulog_entry \<Rightarrow> string" where
  "sulog_line i e =
     ''index (reordered): '' @ fmt_d (of_nat i) @ '' sym: '' @ [byte_char (fst e)] @ '' uid: '' @ fmt_u (snd e)"

function sulog_loop :: "image \<Rightarrow> cint \<Rightarrow> nat \<Rightarrow> uapi" where
  "sulog_loop buf start i =
     (if i < SULOG_ENTRY_MAX then
        (case sulog_slot buf start i of
           None \<Rightarrow> Done Faulted
         | Some e \<Rightarrow> say_line (sulog_line i e) (sulog_loop buf start (i + 1)))
      else Done (Exited 0))"
  by pat_completeness auto

termination by (relation "measure (\<lambda>(_, _, i). SULOG_ENTRY_MAX - i)") auto

declare sulog_loop.simps [simp del]

definition sulog_request :: "uapi_buf req" where
  "sulog_request =
     Req SYS_reboot [Val KSU_INSTALL_MAGIC1, Val 99999, Val 0, Ptr] (SulogBuf 0 (replicate SULOG_BUFSIZ 0))"

definition sulog_main :: uapi where
  "sulog_main =
     libc_syscall (req_no sulog_request) (req_args sulog_request) (req_buf sulog_request) (\<lambda>_ b.
       let (latest_index, sulog_buf) = sulog_reply b (0, replicate SULOG_BUFSIZ 0)
       in say_line (''next index: '' @ fmt_lu latest_index)
            (say_line (''latest entry: '' @ fmt_lu (latest_index - 1))
              (sulog_loop sulog_buf (ucast latest_index) 0)))"

section \<open>A ring of appended entries\<close>

text \<open>
  The specification: the log is the list of everything ever appended; the ring keeps the entry
  number \<open>k\<close> in the slot \<open>k mod 100\<close>; the reader should show the last hundred, with empty entries
  before the first one.
\<close>

definition ring_of :: "sulog_entry list \<Rightarrow> sulog_entry list" where
  "ring_of log = fst (foldl (\<lambda>(ring, k) e. (ring[k mod SULOG_ENTRY_MAX := e], k + 1))
                        (replicate SULOG_ENTRY_MAX (0, 0), 0) log)"

definition last_entries :: "sulog_entry list \<Rightarrow> sulog_entry list" where
  "last_entries log = drop (length log) (replicate SULOG_ENTRY_MAX (0, 0) @ log)"

definition entry_bytes :: "sulog_entry \<Rightarrow> image" where
  "entry_bytes e = fst e # le_bytes (snd e)"

definition ring_image :: "sulog_entry list \<Rightarrow> image" where
  "ring_image ring = concat (map entry_bytes ring)"

lemma ring_of_Nil: "ring_of [] = replicate SULOG_ENTRY_MAX (0, 0)"
  by (simp add: ring_of_def)

lemma ring_of_snoc: "ring_of (log @ [e]) = (ring_of log)[length log mod SULOG_ENTRY_MAX := e]"
proof -
  have "snd (foldl (\<lambda>(ring, k) e. (ring[k mod SULOG_ENTRY_MAX := e], k + 1)) (ring, k) log) = k + length log"
    for ring :: "sulog_entry list" and k
    by (induction log arbitrary: ring k) auto
  then show ?thesis by (simp add: ring_of_def case_prod_unfold)
qed

lemma length_ring_of [simp]: "length (ring_of log) = SULOG_ENTRY_MAX"
  by (induction log rule: rev_induct) (simp_all add: ring_of_Nil ring_of_snoc)

lemma last_entries_snoc: "last_entries (log @ [e]) = tl (last_entries log) @ [e]"
proof -
  have "drop (Suc n) (xs @ [e]) = tl (drop n xs) @ [e]" if "n < length xs" for n and xs :: "sulog_entry list"
    using that by (simp add: drop_Suc tl_drop tl_append split: list.split)
  from this [of "length log" "replicate SULOG_ENTRY_MAX (0, 0) @ log"] show ?thesis
    by (simp only: last_entries_def append_assoc length_append_singleton) (simp add: SULOG_ENTRY_MAX_def)
qed

lemma length_last_entries [simp]: "length (last_entries log) = SULOG_ENTRY_MAX"
  by (simp add: last_entries_def)

lemma mod_shift_neq: "0 < k \<Longrightarrow> k < m \<Longrightarrow> (n + k) mod m \<noteq> n mod (m :: nat)"
  using mod_eq_dvd_iff_nat [of n "n + k" m] by (auto dest: dvd_imp_le)

lemma ring_in_order:
  "i < SULOG_ENTRY_MAX \<Longrightarrow> ring_of log ! ((length log + i) mod SULOG_ENTRY_MAX) = last_entries log ! i"
proof (induction log arbitrary: i rule: rev_induct)
  case Nil
  then show ?case by (simp add: ring_of_Nil last_entries_def)
next
  case (snoc e log)
  show ?case
  proof (cases "i + 1 < SULOG_ENTRY_MAX")
    case True
    then have "length log mod SULOG_ENTRY_MAX \<noteq> (length log + (i + 1)) mod SULOG_ENTRY_MAX"
      using mod_shift_neq [of "i + 1" SULOG_ENTRY_MAX "length log"] by simp
    moreover have "(tl (last_entries log) @ [e]) ! i = last_entries log ! (i + 1)"
      using True by (simp add: nth_append nth_tl less_diff_conv)
    moreover have "length (log @ [e]) + i = length log + (i + 1)" by simp
    ultimately show ?thesis
      using snoc.IH [OF True] by (metis ring_of_snoc last_entries_snoc nth_list_update_neq)
  next
    case False
    with snoc.prems have "i = 99" by (simp add: SULOG_ENTRY_MAX_def)
    then have "(length (log @ [e]) + i) mod SULOG_ENTRY_MAX = length log mod SULOG_ENTRY_MAX"
      using mod_add_self2 [of "length log" 100] by (simp add: SULOG_ENTRY_MAX_def)
    moreover have "(tl (last_entries log) @ [e]) ! i = e"
      using \<open>i = 99\<close> by (simp add: nth_append SULOG_ENTRY_MAX_def)
    ultimately show ?thesis
      by (simp add: ring_of_snoc last_entries_snoc SULOG_ENTRY_MAX_def)
  qed
qed

section \<open>What the reader prints\<close>

lemma sulog_entry_size: "csizeof sulog_entry_t = 5" "the (offset_of sulog_entry_t [''uid'']) = 1"
  by (simp_all add: sulog_entry_t_def char_t_def align_up_def member_def)

lemma length_ring_image [simp]: "length (ring_image ring) = 5 * length ring"
  by (induction ring) (simp_all add: ring_image_def entry_bytes_def length_le_bytes)

lemma drop_ring_image: "drop (5 * j) (ring_image ring) = ring_image (drop j ring)"
proof (induction j arbitrary: ring)
  case (Suc j)
  have "drop (5 * Suc j) (ring_image ring) = drop (5 * j) (drop 5 (ring_image ring))"
    by (simp add: add.commute)
  also have "drop 5 (ring_image ring) = ring_image (tl ring)"
    by (cases ring) (simp_all add: ring_image_def entry_bytes_def length_le_bytes)
  finally show ?case by (simp add: Suc drop_Suc)
qed simp

lemma entry_at_ring:
  assumes "j < length ring"
  shows "entry_at (ring_image ring) (int j) = Some (ring ! j)"
proof -
  have d: "drop (5 * j) (ring_image ring) = entry_bytes (ring ! j) @ ring_image (drop (Suc j) ring)"
    unfolding drop_ring_image Cons_nth_drop_Suc [OF assms, symmetric] by (simp add: ring_image_def)
  have "ring_image ring ! (5 * j) = hd (drop (5 * j) (ring_image ring))"
    using assms by (simp add: hd_drop_conv_nth)
  then have sym: "ring_image ring ! (5 * j) = fst (ring ! j)"
    by (simp add: d entry_bytes_def)
  have "drop (5 * j + 1) (ring_image ring) = tl (drop (5 * j) (ring_image ring))"
    by (simp add: tl_drop drop_Suc)
  then have "get_at (5 * j + 1) 4 (ring_image ring) = le_bytes (snd (ring ! j))"
    by (simp add: get_at_def d entry_bytes_def length_le_bytes)
  moreover have "nat (int j * 5) = 5 * j" by simp
  moreover have "5 * int j + 5 \<le> 5 * int (length ring)" using assms by linarith
  ultimately show ?thesis
    using sym by (simp add: entry_at_def sulog_entry_size le_word32_bytes Let_def mult.commute del: offset_of.simps)
qed

lemma entry_at_outside: "idx < 0 \<Longrightarrow> entry_at buf idx = None"
  by (simp add: entry_at_def sulog_entry_size del: offset_of.simps)

lemma entry_at_inside: "idx < SULOG_ENTRY_MAX \<Longrightarrow> length buf = SULOG_BUFSIZ \<Longrightarrow> entry_at buf (int idx) \<noteq> None"
  by (simp add: Let_def entry_at_def sulog_entry_size SULOG_BUFSIZ_def SULOG_ENTRY_MAX_def del: offset_of.simps)

lemma sulog_slot_inside:
  assumes "0 \<le> sint start" and "sint start + int i < 2 ^ 31"
  shows "sulog_slot buf start i = entry_at buf (int ((nat (sint start) + i) mod SULOG_ENTRY_MAX))"
proof -
  have "(sint start + int i) smod int SULOG_ENTRY_MAX = int ((nat (sint start) + i) mod SULOG_ENTRY_MAX)"
    using assms(1) by (simp add: signed_modulo_int_def sgn_if zmod_int)
  then show ?thesis using assms(2) by (simp add: sulog_slot_def int_add_def)
qed

lemma sulog_slot_negative:
  assumes "sint start < 0"
  shows "\<exists>j < SULOG_ENTRY_MAX. sulog_slot buf start j = None"
proof (cases "(- sint start) mod 100 = 0")
  case False
  then have "sint start smod 100 < 0"
    using assms pos_mod_sign [of 100 "- sint start"] by (simp add: signed_modulo_int_def)
  then have "sulog_slot buf start 0 = None"
    using assms by (simp add: sulog_slot_def int_add_def SULOG_ENTRY_MAX_def entry_at_outside)
  then show ?thesis by (intro exI [of _ 0]) (simp add: SULOG_ENTRY_MAX_def)
next
  case True
  have neg: "s \<le> - 100 \<and> (- (s + 1)) mod 100 = 99" if "(- s) mod 100 = 0" "s < 0" for s :: int
  proof -
    obtain q where "- s = 100 * q" using \<open>(- s) mod 100 = 0\<close> by (auto elim: dvdE simp: dvd_eq_mod_eq_0)
    then have q: "s = - (100 * q)" by simp
    with \<open>s < 0\<close> have "1 \<le> q" by simp
    moreover have "- (s + 1) = 99 + 100 * (q - 1)" by (simp add: q)
    ultimately show ?thesis using q by (simp only: mod_mult_self2) simp
  qed
  have "sint start \<le> - 100" and "(- (sint start + 1)) mod 100 = 99"
    using neg [OF True assms] by simp_all
  then have "(sint start + 1) smod 100 < 0" by (simp add: signed_modulo_int_def)
  then have "sulog_slot buf start 1 = None"
    using assms by (simp add: sulog_slot_def int_add_def SULOG_ENTRY_MAX_def entry_at_outside)
  then show ?thesis by (intro exI [of _ 1]) (simp add: SULOG_ENTRY_MAX_def)
qed

lemma sulog_loop_outcome:
  "fst (run K (sulog_loop buf start i) k) =
     (if \<exists>j. i \<le> j \<and> j < SULOG_ENTRY_MAX \<and> sulog_slot buf start j = None then Faulted else Exited 0)"
proof (induction "SULOG_ENTRY_MAX - i" arbitrary: i)
  case 0
  then show ?case by (subst sulog_loop.simps) auto
next
  case (Suc d)
  then have "i < SULOG_ENTRY_MAX" and d: "d = SULOG_ENTRY_MAX - (i + 1)" by simp_all
  then have split: "(\<exists>j. i \<le> j \<and> j < SULOG_ENTRY_MAX \<and> sulog_slot buf start j = None) \<longleftrightarrow>
      sulog_slot buf start i = None \<or> (\<exists>j. i + 1 \<le> j \<and> j < SULOG_ENTRY_MAX \<and> sulog_slot buf start j = None)"
    using le_Suc_ex Suc_leI by (metis Suc_eq_plus1 Suc_leD order_refl le_antisym not_less_eq_eq)
  show ?case
    unfolding split using Suc.hyps(1) [OF d] \<open>i < SULOG_ENTRY_MAX\<close>
    by (subst sulog_loop.simps) (auto simp: say_line_def split: option.split)
qed

lemma run_sulog_loop:
  assumes "\<And>j. i \<le> j \<Longrightarrow> j < SULOG_ENTRY_MAX \<Longrightarrow> sulog_slot buf start j = Some (f j)"
  shows "run K (sulog_loop buf start i) k =
     (Exited 0, map (\<lambda>j. Printed (sulog_line j (f j) @ newline)) [i..<SULOG_ENTRY_MAX])"
  using assms
proof (induction "SULOG_ENTRY_MAX - i" arbitrary: i)
  case 0
  then show ?case by (subst sulog_loop.simps) simp
next
  case (Suc d)
  then have "run K (sulog_loop buf start (i + 1)) k =
     (Exited 0, map (\<lambda>j. Printed (sulog_line j (f j) @ newline)) [i + 1..<SULOG_ENTRY_MAX])"
    by simp
  with Suc.hyps(2) Suc.prems [of i] show ?case
    by (subst sulog_loop.simps) (simp add: say_line_def upt_conv_Cons)
qed

section \<open>Properties\<close>

text \<open>
  C14: when the driver answers with the ring of a log and an index congruent to the number of its
  entries, the reader prints that index and then the last hundred entries from the oldest to the
  newest, numbered from 0, and ends with status 0, for every index the counter \<open>int start\<close> can carry.
\<close>

theorem sulog_prints_last_entries:
  assumes "K k sulog_request = ((r, SulogBuf n (ring_image (ring_of log))), k')"
    and "unat n mod SULOG_ENTRY_MAX = length log mod SULOG_ENTRY_MAX" and "unat n + SULOG_ENTRY_MAX \<le> 2 ^ 31"
  shows "run K sulog_main k =
     (Exited 0,
      Called sulog_request (r, SulogBuf n (ring_image (ring_of log))) #
      Printed (''next index: '' @ fmt_lu n @ newline) # Printed (''latest entry: '' @ fmt_lu (n - 1) @ newline) #
      map (\<lambda>i. Printed (sulog_line i (last_entries log ! i) @ newline)) [0..<SULOG_ENTRY_MAX])"
proof -
  have n: "sint (ucast n :: cint) = int (unat n)"
    using assms(3) by (intro sint_ucast_small) (simp add: SULOG_ENTRY_MAX_def)
  have "sulog_slot (ring_image (ring_of log)) (ucast n) i = Some (last_entries log ! i)"
    if "i < SULOG_ENTRY_MAX" for i
  proof -
    have "(unat n + i) mod SULOG_ENTRY_MAX = (length log + i) mod SULOG_ENTRY_MAX"
      using assms(2) by (metis mod_add_left_eq)
    moreover have "sint (ucast n :: cint) + int i < 2 ^ 31" 
      using that assms(3) of_nat_less_iff [of "unat n + i" "2 ^ 31", where 'a = int] by (simp add: n)
    ultimately show ?thesis
      using ring_in_order [OF that, of log] that by (simp add: sulog_slot_inside n entry_at_ring)
  qed
  then show ?thesis
    using assms(1)
    by (simp add: sulog_main_def sulog_request_def sulog_reply_def SULOG_BUFSIZ_def sulog_entry_size
        say_line_def run_sulog_loop [where f = "\<lambda>i. last_entries log ! i"])
qed

text \<open>
  C34: whatever ring of full size the driver answers with, the reader ends with status 0 exactly
  when the index truncated to \<open>int\<close> is not negative and at least a hundred below the overflow; in
  every other case it reads in front of its buffer or overflows.
\<close>

theorem sulog_outcome:
  assumes "K k sulog_request = ((r, SulogBuf n buf), k')" and "length buf = SULOG_BUFSIZ"
  shows "outcome_of K sulog_main k =
     (if (ucast n :: cint) <s 0 \<or> 2 ^ 31 < sint (ucast n :: cint) + int SULOG_ENTRY_MAX then Faulted else Exited 0)"
proof -
  have main: "outcome_of K sulog_main k = fst (run K (sulog_loop buf (ucast n) 0) k')"
    using assms by (simp add: outcome_of_def sulog_main_def sulog_request_def sulog_reply_def say_line_def)
  let ?s = "sint (ucast n :: cint)"
  consider "?s < 0" | "0 \<le> ?s" "2 ^ 31 < ?s + int SULOG_ENTRY_MAX" | "0 \<le> ?s" "?s + int SULOG_ENTRY_MAX \<le> 2 ^ 31"
    by linarith
  then show ?thesis
  proof cases
    case 1
    then show ?thesis
      using sulog_slot_negative [of "ucast n" buf] by (auto simp: main sulog_loop_outcome word_sless_alt)
  next
    case 2
    then have "sulog_slot buf (ucast n) 99 = None"
      by (simp add: sulog_slot_def int_add_def SULOG_ENTRY_MAX_def)
    with 2 show ?thesis
      by (auto simp: main sulog_loop_outcome word_sless_alt SULOG_ENTRY_MAX_def intro!: exI [of _ 99])
  next
    case 3
    then have "sulog_slot buf (ucast n) j \<noteq> None" if "j < SULOG_ENTRY_MAX" for j
    proof -
      have "sulog_slot buf (ucast n) j = entry_at buf (int ((nat ?s + j) mod SULOG_ENTRY_MAX))"
        using 3 that by (intro sulog_slot_inside) linarith+
      then show ?thesis using assms(2) by (simp only:) (rule entry_at_inside; simp add: SULOG_ENTRY_MAX_def)
    qed
    with 3 show ?thesis by (auto simp: main sulog_loop_outcome word_sless_alt)
  qed
qed

text \<open>One entry in the log: ninety-nine empty lines, then the entry. An index of 2 to the 31 faults.\<close>

lemma sulog_prints_last_entries_witness:
  "let log = [(120, 10000)]; reply = (0, SulogBuf 1 (ring_image (ring_of log)))
   in run script sulog_main [reply] =
     (Exited 0,
      Called sulog_request reply #
      Printed (''next index: '' @ fmt_lu 1 @ newline) # Printed (''latest entry: '' @ fmt_lu (1 - 1) @ newline) #
      map (\<lambda>i. Printed (sulog_line i (last_entries log ! i) @ newline)) [0..<SULOG_ENTRY_MAX])"
  unfolding Let_def
  by (rule sulog_prints_last_entries) (simp_all add: SULOG_ENTRY_MAX_def)

lemma sulog_outcome_witness:
  "outcome_of script sulog_main [(0, SulogBuf 0x80000000 (replicate SULOG_BUFSIZ 0))] = Faulted"
  using sulog_outcome [of script "[(0, SulogBuf 0x80000000 (replicate SULOG_BUFSIZ 0))]" 0 "0x80000000"
      "replicate SULOG_BUFSIZ 0" "[]"]
  by (simp add: word_sless_alt)

end
