(* ===== verification/Probes.thy ===== *)
theory Probes
  imports StartDemos
begin

text \<open>
  The small system call front ends: \<open>move_mount/move_mount.c\<close>, \<open>fs_magic/magic.c\<close> and the
  back-port tests \<open>sys_epoll_pwait2.c\<close>, \<open>sys_clone3.c\<close> and \<open>SYS_close_range.c\<close> of
  \<open>syscall_shit/syscall_backports_test\<close>. What \<open>strerror\<close> answers is a parameter.
\<close>

section \<open>Moving a mount\<close>

text \<open>\<open>%s\<close> of a null pointer or past the vector is a bad access.\<close>

definition with_arg :: "string list \<Rightarrow> nat \<Rightarrow> (string \<Rightarrow> uapi) \<Rightarrow> uapi" where
  "with_arg argv i k = (case argv_at argv i of Str s \<Rightarrow> k s | _ \<Rightarrow> Done Faulted)"

definition move_mount_main :: "string list \<Rightarrow> uapi" where
  "move_mount_main argv =
     (if length argv \<noteq> 3
      then with_arg argv 0 (\<lambda>s. puts (''Usage: '' @ s @ '' <from_path> <to_path>'' @ newline) (Done (Exited 1)))
      else with_arg argv 1 (\<lambda>from_path. with_arg argv 2 (\<lambda>to_path.
        libc_syscall SYS_move_mount [Val (- 100), Ptr, Val (- 100), Ptr, Val 0] (PathsBuf from_path to_path) (\<lambda>r _.
          if (ucast r :: cint) <s 0 then puts (''!!'' @ newline) (Done (Exited 1))
          else puts (''sys_move_mount ok: '' @ from_path @ '' -> '' @ to_path @ newline) (Done (Exited 0))))))"

section \<open>File system magic\<close>

definition upper_digit :: "nat \<Rightarrow> char" where
  "upper_digit d = (if d < 16 then ''0123456789ABCDEF'' ! d else CHR ''?'')"

definition fmt_lX :: "u64 \<Rightarrow> string" where
  "fmt_lX x = map upper_digit (digits 16 (unat x))"

text \<open>The first word of the structure is the type; \<open>stale\<close> is what its storage held before.\<close>

definition magic_main :: "u64 \<Rightarrow> string list \<Rightarrow> uapi" where
  "magic_main stale argv =
     (if length argv \<noteq> 2
      then with_arg argv 0 (\<lambda>s. puts (''Usage: '' @ s @ '' <path>'' @ newline) (Done (Exited 1)))
      else with_arg argv 1 (\<lambda>path.
        libc_syscall SYS_statfs [Ptr, Ptr] (TextBuf path) (\<lambda>r b.
          if (ucast r :: cint) \<noteq> 0 then puts (''statfs err'' @ newline) (Done (Exited 1))
          else
            (let f_type = (case b of WordsBuf (w # _) \<Rightarrow> w | _ \<Rightarrow> stale)
             in puts (''magic number: 0x'' @ fmt_lX f_type @ newline) (Done (Exited 0))))))"

section \<open>epoll_pwait2\<close>

definition epoll_pwait2_main :: "string list \<Rightarrow> uapi" where
  "epoll_pwait2_main argv =
     (if length argv < 2 then Done Trapped
      else libc_syscall SYS_epoll_create1 [Val 0] NoBuf (\<lambda>r _.
        let epfd = ucast r :: cint
        in with_arg argv 1 (\<lambda>a. let sec = strtoul0 a in
           with_arg argv 2 (\<lambda>a. let nsec = strtoul0 a in
             libc_syscall SYS_epoll_pwait2 [Val (scast epfd), Ptr, Val 1, Ptr, Val 0] (WordsBuf [sec, nsec]) (\<lambda>r _.
               if (ucast r :: cint) = 0 then puts (''done'' @ newline) (Done (Exited 0))
               else Done (Exited 0))))))"

section \<open>clone3\<close>

definition clone3_text :: string where
  "clone3_text = ''syscall exists!'' @ newline @ ''syscall does NOT exist!'' @ newline"

definition clone3_main :: uapi where
  "clone3_main =
     sys SYS_clone3 [Val 0, Val 0] NoBuf (\<lambda>r _.
       let (str, len) = (if (ucast r :: cint) = - 38 then (drop 16 clone3_text, 24) else (clone3_text, 16))
       in write_str 1 (take len str) (sys_exit 0))"

section \<open>close_range\<close>

definition perror :: "(clong \<Rightarrow> string) \<Rightarrow> string \<Rightarrow> clong \<Rightarrow> uapi \<Rightarrow> uapi" where
  "perror strerror s r k = write_str 2 (s @ '': '' @ strerror (- r) @ newline) k"

definition DT_LNK :: u8 where "DT_LNK = 10"

definition fd_dir :: string where "fd_dir = ''/proc/self/fd''"

text \<open>
  The loop over the directory. A failed \<open>readlink\<close> leaves the target unwritten, and its negative
  length makes \<open>%.*s\<close> print up to a zero byte of it.
\<close>

fun show_entries :: "(u8 \<times> string) list \<Rightarrow> uapi \<Rightarrow> uapi" where
  "show_entries [] k = k"
| "show_entries ((d_type, d_name) # es) k =
     (if d_type = DT_LNK
      then
        (let path = take 4095 (fd_dir @ ''/'' @ d_name)
         in libc_syscall LIB_readlink [Ptr, Ptr, Val 4096] (TextBuf path) (\<lambda>r b.
              let len = ucast r :: cint
              in if len <s 0 then Done Faulted
                 else
                   (let target = (case b of TextBuf t \<Rightarrow> t | _ \<Rightarrow> [])
                    in puts (path @ '' ==> '' @ take (unat len) target @ newline) (show_entries es k))))
      else show_entries es k)"

definition show_fds :: "(clong \<Rightarrow> string) \<Rightarrow> uapi \<Rightarrow> uapi" where
  "show_fds strerror k =
     sys LIB_opendir [Ptr] (TextBuf fd_dir) (\<lambda>r b.
       if libc_result r = - 1 then perror strerror ''opendir'' r (sys_exit 1)
       else show_entries (case b of DirBuf es \<Rightarrow> es | _ \<Rightarrow> []) (sys LIB_closedir [Ptr] NoBuf (\<lambda>_ _. k)))"

fun open_args :: "(clong \<Rightarrow> string) \<Rightarrow> string list \<Rightarrow> uapi \<Rightarrow> uapi" where
  "open_args strerror [] k = k"
| "open_args strerror (a # as) k =
     sys SYS_openat [Val (- 100), Ptr, Val 0] (TextBuf a) (\<lambda>r _.
       let fd = ucast (libc_result r) :: cint
       in if fd = - 1 then perror strerror a r (sys_exit 1)
          else puts (a @ '' opened as FD '' @ fmt_d fd @ newline) (open_args strerror as k))"

definition about_to_call :: string where
  "about_to_call = ''========= About to call close_range() ======='' @ newline"

definition close_range_main :: "(clong \<Rightarrow> string) \<Rightarrow> string list \<Rightarrow> uapi" where
  "close_range_main strerror argv =
     open_args strerror (drop 1 argv)
       (show_fds strerror
         (puts about_to_call
           (sys SYS_close_range [Val 3, Val 0xFFFFFFFF, Val 0] NoBuf (\<lambda>r _.
             if libc_result r = - 1 then perror strerror ''close_range'' r (sys_exit 1)
             else show_fds strerror (sys_exit 1)))))"

section \<open>Reading numbers\<close>

lemma digit_char_inj: "d < 10 \<Longrightarrow> digit_char d = CHR ''0'' \<Longrightarrow> d = 0"
proof -
  assume "d < 10" and d: "digit_char d = CHR ''0''"
  then have "d < 16" by simp
  then show "d = 0" using d unfolding less_sixteen_cases by (elim disjE) (simp_all add: digit_char_def)
qed

lemma digit_not_special:
  assumes "d < 10"
  shows "\<not> is_space (digit_char d)" and "digit_char d \<noteq> CHR ''-''" and "digit_char d \<noteq> CHR ''+''"
proof -
  have "d < 16" using assms by simp
  then show "\<not> is_space (digit_char d)" "digit_char d \<noteq> CHR ''-''" "digit_char d \<noteq> CHR ''+''"
    unfolding less_sixteen_cases by (elim disjE; simp add: digit_char_def is_space_def)+
qed

lemma hd_digits: "1 < b \<Longrightarrow> 0 < n \<Longrightarrow> hd (digits b n) \<noteq> 0"
proof (induction b n rule: digits.induct)
  case (1 b n)
  then show ?case by (subst digits.simps) (auto simp: div_greater_zero_iff)
qed

lemma digits_prefix_digits:
  assumes "\<forall>d \<in> set ds. d < b" and "b \<le> 16"
  shows "digits_prefix b (map digit_char ds) = ds"
proof -
  have "takeWhile (\<lambda>c. char_digit b c \<noteq> None) (map digit_char ds) = map digit_char ds"
    using assms by (intro takeWhile_eq_all_conv [THEN iffD2]) auto
  moreover have "map ((\<lambda>c. the (char_digit b c)) \<circ> digit_char) ds = ds"
    using assms by (intro map_idI) auto
  ultimately show ?thesis by (simp only: digits_prefix_def map_map)
qed

lemma strtoul0_decimal:
  assumes "n < 2 ^ 64"
  shows "strtoul0 (show_base 10 n) = of_nat n"
proof -
  obtain d ds where ds: "digits 10 n = d # ds" by (cases "digits 10 n") auto
  have d: "d < 10" "\<forall>d \<in> set (digits 10 n). d < 10" using digits_bound [of 10 _ n] ds by auto
  have s: "show_base 10 n = digit_char d # map digit_char ds" by (simp add: show_base_def ds)
  have v: "horner 10 (digits_prefix 10 (show_base 10 n)) = n"
    using digits_prefix_digits [OF d(2)] by (simp add: show_base_def)
  show ?thesis
  proof (cases "n = 0")
    case True
    then show ?thesis
      by (simp add: show_base_zero strtoul0_def digits_prefix_def char_digit_def horner_def is_space_def Let_def)
  next
    case False
    then have "d \<noteq> 0" using hd_digits [of 10 n] ds by auto
    then have "digit_char d \<noteq> CHR ''0''" using digit_char_inj d(1) by blast
    then show ?thesis
      using assms v digit_not_special [OF d(1)] unfolding strtoul0_def s by (simp add: Let_def)
  qed
qed

section \<open>Properties\<close>

text \<open>
  The program traps without arguments but reads its second argument without a check: with
  exactly one it dereferences the null pointer at the end of the vector. With both, decimal numbers
  of up to 64 bits arrive in the timeout as they were written.
\<close>

theorem epoll_pwait2_arguments:
  "outcome_of K (epoll_pwait2_main argv) k =
     (if length argv < 2 then Trapped else if length argv = 2 then Faulted else Exited 0) \<and>
   (\<exists>r b w. trace_of K (epoll_pwait2_main (name # fmt_lu sec # fmt_lu nsec # rest)) k =
      [Called (Req SYS_epoll_create1 [Val 0] NoBuf) (r, b),
       Called (Req SYS_epoll_pwait2 [Val (scast (ucast (libc_result r) :: cint)), Ptr, Val 1, Ptr, Val 0] (WordsBuf [sec, nsec])) w] @
      (if (ucast (libc_result (fst w)) :: cint) = 0 then [Printed (''done'' @ newline)] else []))"
proof
  show "outcome_of K (epoll_pwait2_main argv) k =
     (if length argv < 2 then Trapped else if length argv = 2 then Faulted else Exited 0)"
    by (auto simp: outcome_of_def epoll_pwait2_main_def with_arg_def argv_at_def Let_def split: prod.split)
  have "strtoul0 (fmt_lu x) = x" for x
  proof -
    have "unat x < 2 ^ 64" by (rule order_less_le_trans [OF unsigned_less]) simp
    then show ?thesis using strtoul0_decimal [of "unat x"] by (simp add: fmt_lu_def)
  qed
  then show "\<exists>r b w. trace_of K (epoll_pwait2_main (name # fmt_lu sec # fmt_lu nsec # rest)) k =
      [Called (Req SYS_epoll_create1 [Val 0] NoBuf) (r, b),
       Called (Req SYS_epoll_pwait2 [Val (scast (ucast (libc_result r) :: cint)), Ptr, Val 1, Ptr, Val 0] (WordsBuf [sec, nsec])) w] @
      (if (ucast (libc_result (fst w)) :: cint) = 0 then [Printed (''done'' @ newline)] else [])"
    by (auto simp: trace_of_def epoll_pwait2_main_def with_arg_def argv_at_def Let_def split: prod.split)
qed

text \<open>The order of the calls: descriptors are closed only after the directory has been shown.\<close>

definition shown_first :: "(bool, uapi_buf) protocol" where
  "shown_first shown q r =
     (if req_no q = SYS_close_range then (if shown then Some shown else None)
      else Some (shown \<or> req_no q = LIB_closedir))"

definition link_failed :: "uapi_buf event list \<Rightarrow> bool" where
  "link_failed tr \<longleftrightarrow>
     (\<exists>tr' q r b. tr = tr' @ [Called q (r, b)] \<and> req_no q = LIB_readlink \<and> (ucast (libc_result r) :: cint) <s 0)"

lemma link_failed_snoc [simp]:
  "link_failed (h @ [Called q (r, b)]) \<longleftrightarrow> req_no q = LIB_readlink \<and> (ucast (libc_result r) :: cint) <s 0"
  unfolding link_failed_def by auto

definition close_range_end :: "outcome \<Rightarrow> uapi_buf event list \<Rightarrow> bool" where
  "close_range_end x tr \<longleftrightarrow> x = Exited 1 \<or> x = Faulted \<and> link_failed tr"

lemma close_range_end_simps [simp]:
  "close_range_end (Exited 1) tr" "close_range_end Faulted tr = link_failed tr"
  by (simp_all add: close_range_end_def)

lemma end_exit: "verified (sys_exit 1) h close_range_end"
  by (simp add: sys_exit_def)

lemma end_perror: "verified (perror strerror s r (sys_exit 1)) h close_range_end"
  by (simp add: perror_def write_str_def sys_exit_def)

lemma end_show_entries:
  "(\<And>h. verified k h close_range_end) \<Longrightarrow> verified (show_entries es k) h close_range_end"
  by (induction es arbitrary: h) (auto simp: Let_def)

lemma end_show_fds:
  "(\<And>h. verified k h close_range_end) \<Longrightarrow> verified (show_fds strerror k) h close_range_end"
  by (auto simp: show_fds_def end_perror intro!: end_show_entries)

lemma end_open_args:
  "(\<And>h. verified k h close_range_end) \<Longrightarrow> verified (open_args strerror as k) h close_range_end"
  by (induction as arbitrary: h) (auto simp: Let_def end_perror)

lemma order_exit: "conforms spec (sys_exit c) sh"
  by (simp add: sys_exit_def)

lemma order_perror: "conforms shown_first (perror strerror s r (sys_exit 1)) sh"
  by (simp add: perror_def write_str_def sys_exit_def shown_first_def)

lemma order_show_entries:
  "conforms shown_first k sh \<Longrightarrow> conforms shown_first (show_entries es k) sh"
  by (induction es) (auto simp: Let_def shown_first_def)

lemma order_show_fds:
  "conforms shown_first k True \<Longrightarrow> conforms shown_first (show_fds strerror k) sh"
  by (auto simp: show_fds_def order_perror shown_first_def intro!: order_show_entries)

lemma order_open_args:
  "conforms shown_first k sh \<Longrightarrow> conforms shown_first (open_args strerror as k) sh"
  by (induction as) (auto simp: Let_def order_perror shown_first_def)

text \<open>
  the test of \<open>close_range\<close> never reports success: whatever the kernel does it ends with status
  1, or reads unwritten memory right after a link of the directory could not be read. It closes
  the descriptors only after it has shown the directory.
\<close>

theorem close_range_never_succeeds:
  "close_range_end (outcome_of K (close_range_main strerror argv) k) (trace_of K (close_range_main strerror argv) k) \<and>
   accepted shown_first False (trace_of K (close_range_main strerror argv) k)"
proof
  have "verified (close_range_main strerror argv) [] close_range_end"
    unfolding close_range_main_def
    by (intro end_open_args end_show_fds) (simp add: end_perror end_exit end_show_fds)
  then show "close_range_end (outcome_of K (close_range_main strerror argv) k) (trace_of K (close_range_main strerror argv) k)"
    by (rule verifiedI)
  have "conforms shown_first (close_range_main strerror argv) False"
    unfolding close_range_main_def
    by (intro order_open_args order_show_fds)
      (simp add: order_perror order_exit order_show_fds shown_first_def, blast)
  then show "accepted shown_first False (trace_of K (close_range_main strerror argv) k)"
    by (rule conforms_accepted)
qed

text \<open>
  The front ends for mounts and file systems: wrong argument counts print the usage and end
  with 1 (or fault when there is not even a program name); otherwise exactly one call is made
  with the given paths and the status tells whether it succeeded, the magic in hexadecimal.
\<close>

theorem front_ends:
  "(if length argv \<noteq> 3
    then outcome_of K (move_mount_main argv) k = (if argv = [] then Faulted else Exited 1)
    else \<exists>r b. hd (trace_of K (move_mount_main argv) k) =
            Called (Req SYS_move_mount [Val (- 100), Ptr, Val (- 100), Ptr, Val 0] (PathsBuf (argv ! 1) (argv ! 2))) (r, b) \<and>
          outcome_of K (move_mount_main argv) k = Exited (if (ucast (libc_result r) :: cint) <s 0 then 1 else 0)) \<and>
   (if length argv \<noteq> 2
    then outcome_of K (magic_main stale argv) k = (if argv = [] then Faulted else Exited 1)
    else \<exists>r b. hd (trace_of K (magic_main stale argv) k) = Called (Req SYS_statfs [Ptr, Ptr] (TextBuf (argv ! 1))) (r, b) \<and>
          (if (ucast (libc_result r) :: cint) \<noteq> 0 then outcome_of K (magic_main stale argv) k = Exited 1
           else outcome_of K (magic_main stale argv) k = Exited 0 \<and>
             last (trace_of K (magic_main stale argv) k) =
               Printed (''magic number: 0x'' @ fmt_lX (case b of WordsBuf (w # _) \<Rightarrow> w | _ \<Rightarrow> stale) @ newline)))"
  by (auto simp: outcome_of_def trace_of_def move_mount_main_def magic_main_def with_arg_def argv_at_def Let_def
      split: prod.split)

end
