(* ===== verification/SmallTests.thy ===== *)
theory SmallTests
  imports Probes SuperUser KsuTools
begin

text \<open>
  The small test programs: \<open>syscall_test.c\<close> (does the system call with this number exist?),
  \<open>test_stat/test_stat.c\<close> and \<open>test_stat_syscall.c\<close>, \<open>kernelsu/sucompat_test.c\<close>,
  \<open>kernelsu/ksu_fd/ksu_fd_test.c\<close> and \<open>tests/hello-c.c\<close>.
\<close>

section \<open>A system call by its number\<close>

definition INT_MAX :: cint where "INT_MAX = 0x7fffffff"

text \<open>\<open>res * 10 + (*str - 48)\<close>; \<open>None\<close> is a signed overflow.\<close>

definition push_digit :: "cint \<Rightarrow> char \<Rightarrow> cint option" where
  "push_digit res c =
     (let v = sint res * 10 + (of_char c - 48) in if v < 2 ^ 31 then Some (word_of_int v) else None)"

fun atoi_loop :: "cint \<Rightarrow> string \<Rightarrow> cint option" where
  "atoi_loop res [] = Some INT_MAX"
| "atoi_loop res (c # str) =
     (if \<not> is_digit c then Some INT_MAX
      else do { res \<leftarrow> push_digit res c; if str = [] then Some res else atoi_loop res str })"

definition dumb_atoi :: "string \<Rightarrow> cint option" where
  "dumb_atoi str = atoi_loop 0 str"

definition str1 :: string where "str1 = ''syscall exists!'' @ newline"
definition str2 :: string where "str2 = ''syscall does NOT exist!'' @ newline"
definition str3 :: string where "str3 = ''erronous input!'' @ newline @ ''try ./sctest 123'' @ newline"

text \<open>\<open>argv[1]\<close> with an empty vector is the first word behind its null terminator, \<open>envp[0]\<close>.\<close>

definition argv_1 :: "string list \<Rightarrow> string list \<Rightarrow> string option" where
  "argv_1 argv envp =
     (case argv of [] \<Rightarrow> (case envp of [] \<Rightarrow> None | e # _ \<Rightarrow> Some e) | [_] \<Rightarrow> None | _ # a # _ \<Rightarrow> Some a)"

definition number_req :: "clong \<Rightarrow> uapi_buf req" where
  "number_req sc = Req SYS_by_number (Val sc # replicate 6 (Val 0)) NoBuf"

text \<open>\<open>exits\<close> are the numbers of the calls that end the process; \<open>sizeof\<close> counts the terminator.\<close>

definition sctest_main :: "(clong \<Rightarrow> bool) \<Rightarrow> string list \<Rightarrow> string list \<Rightarrow> uapi" where
  "sctest_main exits argv envp =
     (let fail = write_str 1 (with_nul str3) (sys_exit 0)
      in case argv_1 argv envp of
           None \<Rightarrow> fail
         | Some a \<Rightarrow>
             (case dumb_atoi a of
                None \<Rightarrow> Done Faulted
              | Some n \<Rightarrow>
                  (let sc = scast n :: clong
                   in if sc = scast INT_MAX then fail
                      else sys (req_no (number_req sc)) (req_args (number_req sc)) NoBuf (\<lambda>r _.
                        let ret = ucast r :: cint
                        in if exits sc then sys_exit 0
                           else if ret = - 38 then write_str 1 (with_nul str2) (sys_exit 0)
                           else write_str 1 (with_nul str1) (sys_exit 0)))))"

section \<open>Sizes of files\<close>

text \<open>\<open>WordsBuf\<close> is \<open>st_size\<close>, \<open>st_uid\<close> and \<open>st_ino\<close>; \<open>stale\<close> is what the structure held before.\<close>

definition test_stat_main :: "clong list \<Rightarrow> string list \<Rightarrow> uapi" where
  "test_stat_main stale argv =
     (if length argv < 2
      then with_arg argv 0 (\<lambda>s. say_line (''usage: '' @ s @ '' <file>'') (Done (Exited 1)))
      else with_arg argv 1 (\<lambda>path.
        libc_syscall SYS_openat [Val (- 100), Ptr, Val 0] (TextBuf path) (\<lambda>r _.
          let fd = ucast r :: cint
          in if fd <s 0 then Done (Exited 1)
             else libc_syscall SYS_fstat [Val (scast fd), Ptr] (WordsBuf stale) (\<lambda>r b.
               let st = words_after b stale
               in if (ucast r :: cint) = 0 then
                    say_line (''size:  '' @ fmt_ld (st ! 0) @ '' bytes'')
                      (say_line (''uid:   '' @ fmt_d (ucast (st ! 1)))
                        (say_line (''inode: '' @ fmt_lu (st ! 2))
                          (libc_syscall SYS_close [Val (scast fd)] NoBuf (\<lambda>_ _. Done (Exited 0)))))
                  else Done (Exited 1)))))"

text \<open>\<open>file:\<close> and \<open>size:\<close> are followed by the code after the label \<open>bail\<close>.\<close>

definition bail :: uapi where
  "bail = say_line ''fail'' (Done (Exited 1))"

definition test_stat_syscall_main :: "clong list \<Rightarrow> string list \<Rightarrow> uapi" where
  "test_stat_syscall_main stale argv =
     (if length argv \<noteq> 2
      then with_arg argv 0 (\<lambda>s. say_line (''usage: '' @ s @ '' <file>'') (Done (Exited 1)))
      else with_arg argv 1 (\<lambda>path.
        libc_syscall SYS_openat [Val (- 100), Ptr, Val 0] (TextBuf path) (\<lambda>r _.
          let fd = ucast r :: cint
          in if fd <s 0 then bail
             else libc_syscall SYS_fstat [Val (scast fd), Ptr] (WordsBuf stale) (\<lambda>r b.
               let ret = r; st = words_after b stale
               in if ret \<noteq> 0 then bail
                  else say_line (''file:'' @ tab @ path)
                    (say_line (''size:'' @ tab @ fmt_lu (st ! 0) @ '' bytes'') bail)))))"

section \<open>The su compatibility test\<close>

definition system_bin_su :: string where "system_bin_su = ''/system/bin/su''"

definition sucompat_main :: "string list \<Rightarrow> string list \<Rightarrow> uapi" where
  "sucompat_main argv envp =
     (let argv = rename_argv0 argv envp
      in libc_syscall SYS_faccessat [Val (- 100), Ptr, Val 0, Val 0] (TextBuf system_bin_su) (\<lambda>_ _.
         libc_syscall SYS_newfstatat [Val (- 100), Ptr, Ptr, Val 0x100] (TextBuf system_bin_su) (\<lambda>_ _.
         libc_syscall SYS_execveat [Val (- 100), Ptr, Ptr, Ptr, Val 0] (ExecBuf system_bin_su argv envp) (\<lambda>r _.
           if r = 0 then Done Replaced
           else libc_syscall SYS_execve [Ptr, Ptr, Ptr] (ExecBuf system_bin_su argv envp) (\<lambda>r _.
             if r = 0 then Done Replaced else Done Trapped)))))"

section \<open>The descriptor test\<close>

definition ksu_fd_test_main :: uapi where
  "ksu_fd_test_main =
     libc_syscall SYS_reboot [Val KSU_INSTALL_MAGIC1, Val KSU_INSTALL_MAGIC2, Val 0, Ptr] (FdBuf 0) (\<lambda>_ b.
       let fd = fd_after b 0
       in if fd = 0 then say_line msg_reboot_failed (Done (Exited 1))
          else libc_syscall SYS_getpid [] NoBuf (\<lambda>r _.
            say_line (''[+] current pid: '' @ fmt_d (ucast r))
              (say_line (msg_fd fd)
                (let info = replicate (csizeof ksu_info_t) 0
                 in ioctl fd KSU_IOCTL_GET_INFO_LEGACY (InfoBuf info) (\<lambda>r b.
                   let ret = ucast r :: cint; info = image_after b info
                   in if ret <s 0 then say_line msg_info_failed (Done (Exited 0))
                      else info_lines info (Done (Exited 0)))))))"

section \<open>A sum as a digit\<close>

definition add_byref_to_char :: "cint \<Rightarrow> cint \<Rightarrow> string" where
  "add_byref_to_char a b = (let x = a + b in [char_of (unat (ucast (48 + x) :: u8)), char_of (10 :: nat)])"

definition hello_c_main :: uapi where
  "hello_c_main = libc_syscall SYS_write [Val 1, Ptr, Val 2] (TextBuf (add_byref_to_char 4 5)) (\<lambda>_ _. Done (Exited 0))"

section \<open>What the number parser accepts\<close>

lemma char_digit_10: "char_digit 10 c = (if is_digit c then Some (of_char c - 48) else None)"
  by (auto simp: char_digit_def is_digit_def Let_def)

lemma digits_prefix_Nil [simp]: "digits_prefix b [] = []"
  by (simp add: digits_prefix_def)

lemma digits_prefix_Cons [simp]:
  "digits_prefix 10 (c # s) = (if is_digit c then (of_char c - 48) # digits_prefix 10 s else [])"
  by (simp add: digits_prefix_def char_digit_10)

lemma foldl_horner_mono: "a \<le> foldl (\<lambda>a d. a * 10 + d) a (ds :: nat list)"
proof (induction ds arbitrary: a)
  case (Cons d ds)
  have "a \<le> a * 10 + d" by simp
  also have "\<dots> \<le> foldl (\<lambda>a d. a * 10 + d) (a * 10 + d) ds" by (rule Cons.IH)
  finally show ?case by simp
qed simp

lemma push_digit_nat:
  assumes "a < 2 ^ 31" and "is_digit c"
  shows "push_digit (of_nat a) c =
     (let v = a * 10 + (of_char c - 48) in if v < 2 ^ 31 then Some (of_nat v) else None)"
proof -
  have "sint (of_nat a :: cint) = int a"
    using assms(1) by (simp add: signed_of_nat signed_take_bit_int_eq_self)
  moreover have "int (of_char c - 48) = of_char c - 48"
    using assms(2) by (simp add: is_digit_def Let_def of_nat_diff of_nat_of_char)
  ultimately have v: "sint (of_nat a :: cint) * 10 + (of_char c - 48) = int (a * 10 + (of_char c - 48))"
    by simp
  show ?thesis
    unfolding push_digit_def Let_def v of_int_of_nat_eq by simp
qed

lemma atoi_loop_value:
  "a < 2 ^ 31 \<Longrightarrow>
   atoi_loop (of_nat a) s =
     (let ds = digits_prefix 10 s; v = foldl (\<lambda>a d. a * 10 + d) a ds
      in if 2 ^ 31 \<le> v then None
         else if s = [] \<or> length ds < length s then Some INT_MAX else Some (of_nat v))"
proof (induction s arbitrary: a)
  case (Cons c s)
  show ?case
  proof (cases "is_digit c")
    case True
    define a' where "a' = a * 10 + (of_char c - 48)"
    have push: "push_digit (of_nat a) c = (if a' < 2 ^ 31 then Some (of_nat a') else None)"
      using push_digit_nat [OF Cons.prems True] by (simp add: a'_def)
    have v: "foldl (\<lambda>a d. a * 10 + d) a (digits_prefix 10 (c # s)) = foldl (\<lambda>a d. a * 10 + d) a' (digits_prefix 10 s)"
      by (simp add: True a'_def)
    have "a' \<le> foldl (\<lambda>a d. a * 10 + d) a' (digits_prefix 10 s)" by (rule foldl_horner_mono)
    then show ?thesis
      using Cons.IH [of a'] push True unfolding Let_def v
      by (cases "a' < 2 ^ 31") (auto simp del: of_nat_add of_nat_mult)
  qed (use Cons.prems in simp)
qed simp

lemma dumb_atoi_value:
  "dumb_atoi s =
     (let ds = digits_prefix 10 s
      in if 2 ^ 31 \<le> horner 10 ds then None
         else if s = [] \<or> length ds < length s then Some INT_MAX else Some (of_nat (horner 10 ds)))"
  using atoi_loop_value [of 0 s] by (simp add: dumb_atoi_def horner_def Let_def)

lemma scast_of_nat: "n < 2 ^ 31 \<Longrightarrow> scast (of_nat n :: cint) = (of_nat n :: clong)"
  by (simp add: scast_eq signed_of_nat signed_take_bit_int_eq_self)

lemma read_base_10_None: "read_base 10 s = None \<longleftrightarrow> s = [] \<or> length (digits_prefix 10 s) < length s"
proof -
  have "those (map (char_digit 10) s) = None \<longleftrightarrow> length (digits_prefix 10 s) < length s"
    by (induction s) (auto simp: char_digit_10 split: option.splits)
  then show ?thesis by (simp add: read_base_def)
qed

lemma read_base_10_Some: "read_base 10 s = Some v \<Longrightarrow> horner 10 (digits_prefix 10 s) = v"
proof -
  have "those (map (char_digit 10) s) = Some ds \<Longrightarrow> digits_prefix 10 s = ds" for ds
    by (induction s arbitrary: ds) (auto simp: char_digit_10 split: option.splits if_splits)
  then show "read_base 10 s = Some v \<Longrightarrow> horner 10 (digits_prefix 10 s) = v"
    by (auto simp: read_base_def split: if_splits)
qed

section \<open>Properties\<close>

definition wrote :: "('k, uapi_buf) kernel \<Rightarrow> 'k \<Rightarrow> string \<Rightarrow> uapi_buf event list" where
  "wrote K k t = (let q = Req SYS_write [Val 1, Ptr, Val (of_nat (length t))] (TextBuf t) in [Called q (fst (K k q))])"

lemma run_write_exit: "run K (write_str 1 t (sys_exit 0)) k = (Exited 0, wrote K k t)"
  by (simp add: write_str_def sys_exit_def wrote_def case_prod_unfold Let_def)

text \<open>
  C28: an argument of decimal digits whose value is below the largest \<open>int\<close> makes exactly the call of
  that number, and the text says that it does not exist exactly when the low half of the answer is
  -ENOSYS; everything else, the largest \<open>int\<close> included, is reported as erroneous without a call,
  except that a digit prefix that overflows is undefined.
\<close>

theorem sctest_reports:
  "run K (sctest_main exits (p # a # rest) envp) k =
     (if 2 ^ 31 \<le> horner 10 (digits_prefix 10 a) then (Faulted, [])
      else case read_base 10 a of
        None \<Rightarrow> (Exited 0, wrote K k (with_nul str3))
      | Some n \<Rightarrow>
          (if n = 2 ^ 31 - 1 then (Exited 0, wrote K k (with_nul str3))
           else (let q = number_req (of_nat n); (r, k') = K k q
                 in (Exited 0, Called q r #
                      (if exits (of_nat n) then []
                       else wrote K k' (with_nul (if (ucast (fst r) :: cint) = - 38 then str2 else str1)))))))"
proof -
  let ?v = "horner 10 (digits_prefix 10 a)"
  note wr = run_write_exit [unfolded sys_exit_def]
  have max: "(of_nat n :: clong) = scast INT_MAX \<longleftrightarrow> n = 2 ^ 31 - 1" if "n < 2 ^ 31" for n
    using that of_nat_inverse [of n] by (auto simp: INT_MAX_def word_unat_eq_iff unat_of_nat take_bit_nat_eq_self)
  consider (over) "2 ^ 31 \<le> ?v" | (bad) "?v < 2 ^ 31" "read_base 10 a = None"
    | (ok) n where "?v < 2 ^ 31" "read_base 10 a = Some n"
    by (cases "2 ^ 31 \<le> ?v"; cases "read_base 10 a") auto
  then show ?thesis
  proof cases
    case over
    then show ?thesis by (simp add: sctest_main_def argv_1_def dumb_atoi_value Let_def)
  next
    case bad
    then have "dumb_atoi a = Some INT_MAX"
      using read_base_10_None [of a] by (auto simp: dumb_atoi_value Let_def)
    with bad show ?thesis by (simp add: sctest_main_def argv_1_def run_write_exit)
  next
    case ok
    then have n: "?v = n" "n < 2 ^ 31" and "\<not> (a = [] \<or> length (digits_prefix 10 a) < length a)"
      using read_base_10_Some [of a n] read_base_10_None [of a] by simp_all
    then have "dumb_atoi a = Some (of_nat n)" by (simp add: dumb_atoi_value Let_def)
    with ok n show ?thesis
      using max [OF n(2)]
      by (simp add: sctest_main_def argv_1_def scast_of_nat run_write_exit number_req_def sys_exit_def wr
          Let_def case_prod_unfold)
  qed
qed

text \<open>
  Without an argument the program reports erroneous input; with an empty vector it takes the
  first environment string for the argument.
\<close>

theorem sctest_without_argument:
  "run K (sctest_main exits [p] envp) k = (Exited 0, wrote K k (with_nul str3)) \<and>
   sctest_main exits [] (e # envp) = sctest_main exits (p # e # argv) envp'"
  by (simp add: sctest_main_def argv_1_def run_write_exit)

text \<open>
  The two size programs: \<open>test_stat\<close> ends with status 0 exactly when opening and \<open>fstat\<close>
  both succeed; \<open>test_stat_syscall\<close> never ends with status 0, on any kernel, not even after it has
  printed the size, and never closes the file.
\<close>

theorem stat_programs:
  "(let ((r, _), k1) = K k (Req SYS_openat [Val (- 100), Ptr, Val 0] (TextBuf path));
        fd = ucast (libc_result r) :: cint;
        ((r', _), _) = K k1 (Req SYS_fstat [Val (scast fd), Ptr] (WordsBuf stale))
    in outcome_of K (test_stat_main stale (p # path # rest)) k =
         Exited (if fd <s 0 \<or> (ucast (libc_result r') :: cint) \<noteq> 0 then 1 else 0)) \<and>
   outcome_of K (test_stat_syscall_main stale argv) k \<in> {Exited 1, Faulted} \<and>
   SYS_close \<notin> {req_no q | q r. Called q r \<in> set (trace_of K (test_stat_syscall_main stale argv) k)}"
proof (intro conjI)
  show "let ((r, _), k1) = K k (Req SYS_openat [Val (- 100), Ptr, Val 0] (TextBuf path));
        fd = ucast (libc_result r) :: cint;
        ((r', _), _) = K k1 (Req SYS_fstat [Val (scast fd), Ptr] (WordsBuf stale))
    in outcome_of K (test_stat_main stale (p # path # rest)) k =
         Exited (if fd <s 0 \<or> (ucast (libc_result r') :: cint) \<noteq> 0 then 1 else 0)"
    by (simp add: outcome_of_def test_stat_main_def with_arg_def argv_at_def say_line_def Let_def
        case_prod_unfold)
next
  have "verified (test_stat_syscall_main stale argv) []
      (\<lambda>x tr. x \<in> {Exited 1, Faulted} \<and> SYS_close \<notin> {req_no q | q r. Called q r \<in> set tr})"
    by (auto simp: test_stat_syscall_main_def with_arg_def bail_def say_line_def Let_def split: arg_read.split)
  from verifiedI [OF this, of K k]
  show "outcome_of K (test_stat_syscall_main stale argv) k \<in> {Exited 1, Faulted}"
    and "SYS_close \<notin> {req_no q | q r. Called q r \<in> set (trace_of K (test_stat_syscall_main stale argv) k)}"
    by simp_all
qed

text \<open>
  The su compatibility test never returns: it is replaced by the program, or traps after
  exactly four calls when both ways to execute are refused.
\<close>

theorem sucompat_never_returns:
  "outcome_of K (sucompat_main argv envp) k \<in> {Replaced, Trapped} \<and>
   (outcome_of K (sucompat_main argv envp) k = Trapped \<longleftrightarrow>
      map (\<lambda>e. case e of Called q r \<Rightarrow> (req_no q, fst r = 0)) (trace_of K (sucompat_main argv envp) k) \<in>
        {[(SYS_faccessat, x), (SYS_newfstatat, y), (SYS_execveat, False), (SYS_execve, False)] | x y. True})"
  by (rule verifiedI) (simp add: sucompat_main_def Let_def)

text \<open>
  The sum demonstration writes the digit 9 and a line end; the descriptor test ends with 1 when
  it gets no descriptor and with 0 otherwise, whatever the later calls answer.
\<close>

theorem sum_and_descriptor_tests:
  "trace_of K hello_c_main k = [Called (Req SYS_write [Val 1, Ptr, Val 2] (TextBuf (''9'' @ newline)))
      (fst (K k (Req SYS_write [Val 1, Ptr, Val 2] (TextBuf (''9'' @ newline)))))] \<and>
   outcome_of K ksu_fd_test_main k =
     Exited (if fd_after (snd (fst (K k (Req SYS_reboot [Val KSU_INSTALL_MAGIC1, Val KSU_INSTALL_MAGIC2, Val 0, Ptr] (FdBuf 0))))) 0 = 0
             then 1 else 0)"
proof
  have "add_byref_to_char 4 5 = ''9'' @ newline" by (simp add: add_byref_to_char_def newline_def) code_simp
  then show "trace_of K hello_c_main k = [Called (Req SYS_write [Val 1, Ptr, Val 2] (TextBuf (''9'' @ newline)))
      (fst (K k (Req SYS_write [Val 1, Ptr, Val 2] (TextBuf (''9'' @ newline)))))]"
    by (simp add: hello_c_main_def trace_of_def case_prod_unfold)
  show "outcome_of K ksu_fd_test_main k =
     Exited (if fd_after (snd (fst (K k (Req SYS_reboot [Val KSU_INSTALL_MAGIC1, Val KSU_INSTALL_MAGIC2, Val 0, Ptr] (FdBuf 0))))) 0 = 0
             then 1 else 0)"
    by (simp add: ksu_fd_test_main_def outcome_of_def say_line_def info_lines_def ioctl_def Let_def case_prod_unfold)
qed

end
