(* ===== verification/Scopes.thy ===== *)
theory Scopes
  imports StartDemos
begin

text \<open>
  Scope-bound cleanup: the \<open>__cleanup\<close> helpers of \<open>lkm_template/kernel.h\<close> (scoped locks and
  allocations), the handler of \<open>proc_ops/proc_kallsyms_test.h\<close> that uses one, its user space client
  \<open>proc_ops/userspace.c\<close>, and the demonstration \<open>cleanup_defer/example.c\<close>. The kernel's locks,
  allocator and user copies are parameters; what the code relies on is stated as locales.
\<close>

section \<open>Blocks with cleanup\<close>

text \<open>
  A block takes the state to a new state and its result, early returns included; \<open>None\<close> is a
  misuse of a kernel function, such as releasing what is not held.
\<close>

type_synonym ('s, 'r) block = "'s \<Rightarrow> ('s \<times> 'r) option"

text \<open>
  \<open>T *dummy __cleanup(fn) = v; body\<close>: when the scope is left, whichever way, \<open>fn\<close> gets the variable.
\<close>

definition cleanup_var :: "('v \<Rightarrow> 's \<Rightarrow> 's option) \<Rightarrow> 'v \<Rightarrow> ('s, 'r) block \<Rightarrow> ('s, 'r) block" where
  "cleanup_var fn v body s =
     (case body s of
        None \<Rightarrow> None
      | Some (s, r) \<Rightarrow> (case fn v s of None \<Rightarrow> None | Some s \<Rightarrow> Some (s, r)))"







text \<open>
  Scoped allocations: the variable holds the address \<open>kmalloc\<close> gave, 0 for none; \<open>flags\<close> are the
  allocation flags.
\<close>

datatype gfp = GFP_KERNEL | GFP_NOFAIL | GFP_ZERO

type_synonym 's allocator = "nat \<Rightarrow> gfp list \<Rightarrow> 's \<Rightarrow> (nat \<times> 's) option"

definition kfree_byref :: "(nat \<Rightarrow> 's \<Rightarrow> 's option) \<Rightarrow> nat \<Rightarrow> 's \<Rightarrow> 's option" where
  "kfree_byref kfree buf = kfree buf"

definition scoped_kmalloc ::
  "'s allocator \<Rightarrow> (nat \<Rightarrow> 's \<Rightarrow> 's option) \<Rightarrow> nat \<Rightarrow> gfp list \<Rightarrow> (nat \<Rightarrow> ('s, 'r) block) \<Rightarrow> ('s, 'r) block" where
  "scoped_kmalloc kmalloc kfree sz flags body s =
     (case kmalloc sz flags s of
        None \<Rightarrow> None
      | Some (buf, s) \<Rightarrow> cleanup_var (kfree_byref kfree) buf (body buf) s)"

definition offstack_flags ::
  "'s allocator \<Rightarrow> (nat \<Rightarrow> 's \<Rightarrow> 's option) \<Rightarrow> nat \<Rightarrow> gfp list \<Rightarrow> (nat \<Rightarrow> ('s, 'r) block) \<Rightarrow> ('s, 'r) block" where
  "offstack_flags kmalloc kfree sz flags = scoped_kmalloc kmalloc kfree sz flags"

definition offstack ::
  "'s allocator \<Rightarrow> (nat \<Rightarrow> 's \<Rightarrow> 's option) \<Rightarrow> nat \<Rightarrow> (nat \<Rightarrow> ('s, 'r) block) \<Rightarrow> ('s, 'r) block" where
  "offstack kmalloc kfree sz = scoped_kmalloc kmalloc kfree sz [GFP_KERNEL, GFP_NOFAIL]"

definition zoffstack ::
  "'s allocator \<Rightarrow> (nat \<Rightarrow> 's \<Rightarrow> 's option) \<Rightarrow> nat \<Rightarrow> (nat \<Rightarrow> ('s, 'r) block) \<Rightarrow> ('s, 'r) block" where
  "zoffstack kmalloc kfree sz = scoped_kmalloc kmalloc kfree sz [GFP_KERNEL, GFP_NOFAIL, GFP_ZERO]"

section \<open>The contract of a scoped resource\<close>

text \<open>
  What a scope needs of a resource: acquiring gives a handle that was not held before, or a null
  handle that needs no release; releasing is defined exactly on these and removes what was held.
  Then a scope is balanced whenever its body is.
\<close>

locale scoped_resource =
  fixes acquire :: "'s \<Rightarrow> ('h \<times> 's) option"
    and release :: "'h \<Rightarrow> 's \<Rightarrow> 's option"
    and held :: "'s \<Rightarrow> 'h set"
    and null :: "'h set"
  assumes acquire_fresh: "acquire s = Some (h, s') \<Longrightarrow> h \<notin> null \<Longrightarrow> h \<notin> held s \<and> held s' = insert h (held s)"
    and acquire_null: "acquire s = Some (h, s') \<Longrightarrow> h \<in> null \<Longrightarrow> held s' = held s"
    and release_held: "h \<notin> null \<Longrightarrow> h \<in> held s \<Longrightarrow> \<exists>s'. release h s = Some s' \<and> held s' = held s - {h}"
    and release_null: "h \<in> null \<Longrightarrow> release h s = Some s"
    and release_bad: "h \<notin> null \<Longrightarrow> h \<notin> held s \<Longrightarrow> release h s = None"
begin

definition keeps :: "('r \<Rightarrow> bool) \<Rightarrow> ('s, 'r) block \<Rightarrow> bool" where
  "keeps R body \<longleftrightarrow> (\<forall>s. \<exists>s' r. body s = Some (s', r) \<and> held s' = held s \<and> R r)"

definition scope :: "('h \<Rightarrow> ('s, 'r) block) \<Rightarrow> ('s, 'r) block" where
  "scope body s = (case acquire s of None \<Rightarrow> None | Some (h, s) \<Rightarrow> cleanup_var release h (body h) s)"

lemma scope_ends:
  assumes "acquire s = Some (h, s0)" and "body h s0 = Some (s1, r)" and "held s1 = held s0"
  shows "\<exists>s2. release h s1 = Some s2 \<and> held s2 = held s \<and> scope body s = Some (s2, r)"
proof -
  have "\<exists>s2. release h s1 = Some s2 \<and> held s2 = held s"
  proof (cases "h \<in> null")
    case True
    then show ?thesis using assms(3) acquire_null [OF assms(1)] release_null by simp
  next
    case False
    then show ?thesis using assms(3) acquire_fresh [OF assms(1)] release_held [of h s1] by auto
  qed
  with assms(1,2) show ?thesis by (auto simp: scope_def cleanup_var_def)
qed

lemma scope_keeps:
  assumes "acquire s = Some (h, s0)" and "keeps R (body h)"
  shows "\<exists>s' r. scope body s = Some (s', r) \<and> held s' = held s \<and> R r"
proof -
  from assms(2) obtain s1 r where body: "body h s0 = Some (s1, r)" "held s1 = held s0" "R r"
    unfolding keeps_def by blast
  with scope_ends [of s h s0 body s1 r] assms(1) show ?thesis by auto
qed

lemma keeps_scope:
  assumes "\<And>s. acquire s \<noteq> None" and "\<And>h. keeps R (body h)"
  shows "keeps R (scope body)"
  unfolding keeps_def
proof
  fix s
  obtain h s0 where "acquire s = Some (h, s0)" using assms(1) [of s] by force
  from scope_keeps [OF this assms(2)] show "\<exists>s' r. scope body s = Some (s', r) \<and> held s' = held s \<and> R r" .
qed

text \<open>Releasing by hand inside the scope is a double release when the scope ends.\<close>

lemma scope_double_release:
  assumes "acquire s = Some (h, s0)" and "h \<notin> null"
    and "body h = (\<lambda>s. map_option (\<lambda>s. (s, r)) (release h s))"
  shows "scope body s = None"
proof -
  have "h \<in> held s0" using acquire_fresh [OF assms(1,2)] by simp
  then obtain s1 where "release h s0 = Some s1" "h \<notin> held s1" using release_held [of h s0] assms(2) by auto
  with assms release_bad show ?thesis by (simp add: scope_def cleanup_var_def)
qed

end



text \<open>
  The kernel's allocator: address 0 is no memory, which allocations with \<open>GFP_NOFAIL\<close> never give;
  freeing 0 does nothing, freeing anything else needs it to be live.
\<close>

locale kernel_heap =
  fixes kmalloc :: "'s allocator" and kfree :: "nat \<Rightarrow> 's \<Rightarrow> 's option" and live :: "'s \<Rightarrow> nat set"
  assumes kmalloc_live: "kmalloc sz fl s = Some (p, s') \<Longrightarrow> p \<noteq> 0 \<Longrightarrow> p \<notin> live s \<and> live s' = insert p (live s)"
    and kmalloc_fail: "kmalloc sz fl s = Some (0, s') \<Longrightarrow> live s' = live s"
    and kmalloc_total: "\<exists>p s'. kmalloc sz fl s = Some (p, s') \<and> (GFP_NOFAIL \<in> set fl \<longrightarrow> p \<noteq> 0)"
    and kfree_live: "p \<noteq> 0 \<Longrightarrow> p \<in> live s \<Longrightarrow> \<exists>s'. kfree p s = Some s' \<and> live s' = live s - {p}"
    and kfree_null: "kfree 0 s = Some s"
    and kfree_bad: "p \<noteq> 0 \<Longrightarrow> p \<notin> live s \<Longrightarrow> kfree p s = None"

sublocale kernel_heap \<subseteq> of_heap: scoped_resource "kmalloc sz fl" kfree live "{0}" for sz fl
  by unfold_locales (auto simp: kmalloc_live kmalloc_fail kfree_live kfree_null kfree_bad)

section \<open>A kernel state\<close>

text \<open>
  The documented behaviour of the kernel functions the code calls, on a state with the held locks,
  the live allocations, the log and the eight words at the user address of the request.
\<close>

record kstate =
  mutexes :: "nat list"
  spinlocks :: "nat list"
  allocs :: "nat list"
  next_addr :: nat
  klog :: "string list"
  ureg :: "u64 list"


definition drop_lock :: "nat \<Rightarrow> nat list \<Rightarrow> nat list option" where
  "drop_lock l ls = (if l \<in> set ls then Some (removeAll l ls) else None)"





definition k_malloc :: "kstate allocator" where
  "k_malloc sz flags s =
     (let p = Suc (Max (set (next_addr s # allocs s)))
      in Some (p, s\<lparr>allocs := p # allocs s, next_addr := p\<rparr>))"

definition k_free :: "nat \<Rightarrow> kstate \<Rightarrow> kstate option" where
  "k_free p s =
     (if p = 0 then Some s
      else map_option (\<lambda>ps. s\<lparr>allocs := ps\<rparr>) (drop_lock p (allocs s)))"



lemma fresh_addr: "Suc (Max (set (n # ps))) \<notin> set ps"
proof
  assume "Suc (Max (set (n # ps))) \<in> set ps"
  then have "Suc (Max (set (n # ps))) \<le> Max (set (n # ps))" by (intro Max_ge) simp_all
  then show False by simp
qed

interpretation kheap: kernel_heap k_malloc k_free "\<lambda>s. set (allocs s)"
  using fresh_addr by unfold_locales (auto simp: k_malloc_def k_free_def drop_lock_def Let_def simp del: Max_insert split: if_splits)

section \<open>The kallsyms write handler\<close>

text \<open>
  The kernel functions of the handler: user copies of whole words from and to the address of the
  request (\<open>None\<close> is a fault), the log, the allocator.
\<close>

record 's ksym_api =
  copy_from_user :: "nat \<Rightarrow> 's \<Rightarrow> u64 list option"
  copy_to_user :: "u64 list \<Rightarrow> 's \<Rightarrow> 's"
  pr_info :: "string \<Rightarrow> 's \<Rightarrow> 's"
  kmalloc :: "'s allocator"
  kfree :: "nat \<Rightarrow> 's \<Rightarrow> 's option"

definition request_magic :: u64 where "request_magic = 0xFFFFFFFFFFFFFFFF"
definition reply_magic :: u64 where "reply_magic = 0xAAAAAAAAAAAAAAAA"

definition got_shitcall :: string where
  "got_shitcall = ''ksym_test: got shitcall'' @ newline"

definition fmt_llx :: "u64 \<Rightarrow> string" where
  "fmt_llx x = ''0x'' @ show_base 16 (unat x)"

fun spaced :: "string list \<Rightarrow> string" where
  "spaced [] = newline"
| "spaced [x] = x @ newline"
| "spaced (x # xs) = x @ CHR '' '' # spaced xs"

definition ksym_write :: "'s ksym_api \<Rightarrow> nat \<Rightarrow> ('s, nat) block" where
  "ksym_write api sz s =
     (case copy_from_user api 1 s of
        None \<Rightarrow> Some (s, sz)
      | Some magic \<Rightarrow>
          if hd magic \<noteq> request_magic then Some (s, sz)
          else
            (let s = pr_info api got_shitcall s
             in zoffstack (kmalloc api) (kfree api) 64 (\<lambda>buf s.
                  if buf = 0 then Some (s, sz)
                  else
                    (case copy_from_user api 8 s of
                       None \<Rightarrow> Some (s, sz)
                     | Some reg \<Rightarrow>
                         (let s = pr_info api (spaced (map fmt_llx (tl reg))) s;
                              s = copy_to_user api [reply_magic] s
                          in Some (s, sz)))) s))"

text \<open>The kernel functions on the kernel state above.\<close>

definition kstate_api :: "kstate ksym_api" where
  "kstate_api = \<lparr>
     copy_from_user = (\<lambda>n s. if n \<le> length (ureg s) then Some (take n (ureg s)) else None),
     copy_to_user = (\<lambda>ws s. s\<lparr>ureg := ws @ drop (length ws) (ureg s)\<rparr>),
     pr_info = (\<lambda>t s. s\<lparr>klog := klog s @ [t]\<rparr>),
     kmalloc = k_malloc,
     kfree = k_free\<rparr>"

section \<open>Installing the handler\<close>

text \<open>
  What the installing thread finds: the result of \<open>kern_path\<close>, the pointers it follows (0 is NULL),
  the offsets of the write slot in the two structures, the slot's content before and after, and the
  result of \<open>ksu_write_to_readonly_slot\<close>.
\<close>

record hook_env =
  kernel_version :: nat
  kern_path_error :: cint
  path_dentry :: u64
  d_inode :: "u64 \<Rightarrow> u64"
  PDE :: "u64 \<Rightarrow> u64"
  proc_ops_of :: "u64 \<Rightarrow> u64"
  proc_fops_of :: "u64 \<Rightarrow> u64"
  off_proc_write :: u64
  off_write :: u64
  slot_before :: u64
  slot_after :: u64
  write_slot_ret :: cint

datatype hook_act = Kthread_run string | Msleep nat | Kern_path string | Pr_info string | Write_slot u64 u64 | Path_put

definition proc_kallsyms :: string where "proc_kallsyms = ''/proc/kallsyms''"

definition step_ok :: "string \<Rightarrow> hook_act" where
  "step_ok what = Pr_info (''ksym_test: '' @ what @ '' '' @ proc_kallsyms @ '' ok!'' @ newline)"

definition hijack_slot :: "hook_env \<Rightarrow> u64 \<Rightarrow> u64 \<Rightarrow> hook_act list" where
  "hijack_slot E slot handler =
     [step_ok ''ops'',
      Pr_info (''ksym_test: found kallsyms_operations->write at slot '' @ fmt_llx slot @ '' pointing to '' @
        fmt_llx (slot_before E) @ '' '' @ newline),
      Write_slot slot handler,
      Pr_info (''ksym_test: kallsyms_operations->write hijack ret: '' @ fmt_d (write_slot_ret E) @ '' ops->write: '' @
        fmt_llx (slot_after E) @ newline)]"

definition ksu_init_hook_kallsyms_ops :: "hook_env \<Rightarrow> u64 \<Rightarrow> hook_act list" where
  "ksu_init_hook_kallsyms_ops E handler =
     Msleep 30000 # Kern_path proc_kallsyms #
     (if kern_path_error E \<noteq> 0
      then [Pr_info (''ksym_test: kern_path err: '' @ fmt_d (kern_path_error E) @ newline)]
      else step_ok ''kern_path'' #
        (if path_dentry E = 0 then []
         else if d_inode E (path_dentry E) = 0 then []
         else step_ok ''path_dentry'' #
           (let pde = PDE E (d_inode E (path_dentry E))
            in if pde = 0 then []
               else step_ok ''pde'' #
                 (let (ops, off) = (if kernel_version E \<ge> 5 * 65536 + 6 * 256 then (proc_ops_of E pde, off_proc_write E)
                                    else (proc_fops_of E pde, off_write E))
                  in if ops = 0 then [] else hijack_slot E (ops + off) handler))) @ [Path_put])"

text \<open>The actions of the module's init, and those of the thread it starts.\<close>

definition ksu_ksym_test_init :: "hook_env \<Rightarrow> u64 \<Rightarrow> hook_act list \<times> hook_act list" where
  "ksu_ksym_test_init E handler = ([Kthread_run ''kthread''], ksu_init_hook_kallsyms_ops E handler)"

section \<open>Its user space client\<close>

definition reg_words :: "u64 list \<Rightarrow> u64 list" where
  "reg_words rs = request_magic # rs"

definition shitcall :: "cint \<Rightarrow> u64 list \<Rightarrow> (cint \<Rightarrow> uapi) \<Rightarrow> uapi" where
  "shitcall fd rs k =
     libc_syscall SYS_write [Val (scast fd), Ptr, Val 1] (WordsBuf (reg_words rs)) (\<lambda>_ b.
       k (case b of WordsBuf (magic # _) \<Rightarrow> if magic \<noteq> reply_magic then 1 else 0 | _ \<Rightarrow> 1))"

definition userspace_main :: uapi where
  "userspace_main =
     libc_syscall SYS_openat [Val (- 100), Ptr, Val 1, Val 420] (TextBuf ''/proc/kallsyms'') (\<lambda>r _.
       let fd = ucast r :: cint
       in if fd <s 0 then sys_exit 1
          else shitcall fd [0, 1, 2, 3, 4, 5, 6] (\<lambda>ret. if ret \<noteq> 0 then sys_exit 1 else sys_exit 0))"

section \<open>The cleanup demonstration\<close>

text \<open>
  The variables with a cleanup function, last declared first; leaving the scope calls the functions
  in this order, which is the reverse of the declarations.
\<close>

type_synonym scope_vars = "(uapi \<Rightarrow> uapi) list"

definition with_var :: "(uapi \<Rightarrow> uapi) \<Rightarrow> scope_vars \<Rightarrow> scope_vars" where
  "with_var f vars = f # vars"

definition leave_scope :: "scope_vars \<Rightarrow> uapi \<Rightarrow> uapi" where
  "leave_scope vars k = foldr (\<lambda>f k. f k) vars k"

definition print_text :: "string \<Rightarrow> uapi \<Rightarrow> uapi" where
  "print_text s k = libc_syscall SYS_write [Val 1, Ptr, Val (of_nat (length s))] (TextBuf s) (\<lambda>_ _. k)"

definition print_int :: "cint \<Rightarrow> uapi \<Rightarrow> uapi" where
  "print_int a k = puts (fmt_d a @ newline) k"

definition free_byref :: "clong \<Rightarrow> uapi \<Rightarrow> uapi" where
  "free_byref p k = sys LIB_free [Val p] NoBuf (\<lambda>_ _. k)"

definition world :: string where "world = ''world'' @ newline"

text \<open>\<open>strcpy\<close> into the thousand bytes of \<open>m\<close>: the string and its terminator have to fit.\<close>

definition example_main :: "string list \<Rightarrow> uapi" where
  "example_main envp =
     (let vars = with_var (print_int 2) [];
          vars = with_var (print_int 1) vars;
          vars = with_var (print_text world) vars
      in sys LIB_malloc [Val 1000] NoBuf (\<lambda>m _.
           let vars = with_var (free_byref m) vars
           in print_text ''hello ''
                (case argv_at envp 0 of
                   Str e \<Rightarrow>
                     if m = 0 \<or> 1000 \<le> length e then Done Faulted
                     else puts (e @ newline) (leave_scope vars (Done (Exited 0)))
                 | _ \<Rightarrow> Done Faulted)))"

section \<open>Clients of the contracts\<close>


context kernel_heap
begin

lemma scoped_kmalloc_is_scope:
  "scoped_kmalloc kmalloc kfree sz fl body = scoped_resource.scope (kmalloc sz fl) kfree body"
proof -
  have "kfree_byref kfree = kfree" by (simp add: fun_eq_iff kfree_byref_def)
  then show ?thesis by (intro ext) (simp only: of_heap.scope_def scoped_kmalloc_def)
qed

lemma scoped_kmalloc_keeps:
  assumes "\<And>p s. \<exists>s' r. body p s = Some (s', r) \<and> live s' = live s \<and> R r"
  shows "\<exists>s' r. scoped_kmalloc kmalloc kfree sz fl body s = Some (s', r) \<and> live s' = live s \<and> R r"
proof -
  obtain p s0 where "kmalloc sz fl s = Some (p, s0)" using kmalloc_total by blast
  then show ?thesis
    unfolding scoped_kmalloc_is_scope
    by (rule of_heap.scope_keeps) (use assms in \<open>simp add: of_heap.keeps_def\<close>)
qed

lemma scoped_kmalloc_ends:
  assumes "kmalloc sz fl s = Some (p, s0)" and "body p s0 = Some (s1, r)" and "live s1 = live s0"
  shows "\<exists>s2. kfree p s1 = Some s2 \<and> live s2 = live s \<and> scoped_kmalloc kmalloc kfree sz fl body s = Some (s2, r)"
  unfolding scoped_kmalloc_is_scope by (rule of_heap.scope_ends [where body = body, OF assms])

lemma scoped_kmalloc_double_free:
  assumes "kmalloc sz fl s = Some (p, s0)" and "p \<noteq> 0"
    and "body p = (\<lambda>s. map_option (\<lambda>s. (s, r)) (kfree p s))"
  shows "scoped_kmalloc kmalloc kfree sz fl body s = None"
  unfolding scoped_kmalloc_is_scope
  by (rule of_heap.scope_double_release [where r = r]) (use assms in simp_all)

end

section \<open>Code with scopes\<close>











definition idle_kernel :: kstate where
  "idle_kernel = \<lparr>mutexes = [], spinlocks = [], allocs = [], next_addr = 0, klog = [], ureg = []\<rparr>"

section \<open>Properties\<close>




text \<open>
  C25: on every path, faulting user copies and a failed allocation included, the handler answers
  the size it was given and leaves no allocation behind, for any allocator that keeps the contract
  and any log and user copies that do not touch it.
\<close>

theorem ksym_write_balanced:
  assumes "kernel_heap (kmalloc api) (kfree api) live"
    and "\<forall>t s. live (pr_info api t s) = live s" and "\<forall>ws s. live (copy_to_user api ws s) = live s"
  shows "\<exists>s'. ksym_write api sz s = Some (s', sz) \<and> live s' = live s"
proof -
  define body where "body = (\<lambda>(buf :: nat) s. if buf = 0 then Some (s, sz)
      else (case copy_from_user api 8 s of None \<Rightarrow> Some (s, sz)
            | Some reg \<Rightarrow> Some (copy_to_user api [reply_magic] (pr_info api (spaced (map fmt_llx (tl reg))) s), sz)))"
  have "\<exists>s' r. body p s = Some (s', r) \<and> live s' = live s \<and> r = sz" for p s
    using assms(2,3) by (simp add: body_def split: option.split)
  with kernel_heap.scoped_kmalloc_keeps [OF assms(1), where body = body and R = "\<lambda>r. r = sz" and
      sz = 64 and fl = "[GFP_KERNEL, GFP_NOFAIL, GFP_ZERO]" and s = "pr_info api got_shitcall s"]
  have "\<exists>s'. zoffstack (kmalloc api) (kfree api) 64 body (pr_info api got_shitcall s) = Some (s', sz) \<and> live s' = live s"
    using assms(2) by (simp add: zoffstack_def)
  moreover have "ksym_write api sz s = (case copy_from_user api 1 s of None \<Rightarrow> Some (s, sz) | Some magic \<Rightarrow>
      if hd magic \<noteq> request_magic then Some (s, sz)
      else zoffstack (kmalloc api) (kfree api) 64 body (pr_info api got_shitcall s))"
    by (simp only: ksym_write_def Let_def body_def)
  ultimately show ?thesis by (simp split: option.split)
qed

definition request_state :: kstate where
  "request_state = idle_kernel\<lparr>ureg := reg_words [0, 1, 2, 3, 4, 5, 6]\<rparr>"

lemma ksym_write_balanced_witness:
  "\<exists>s'. ksym_write kstate_api 1 request_state = Some (s', 1) \<and> set (allocs s') = set (allocs request_state)"
  by (rule ksym_write_balanced) (simp_all add: kstate_api_def kheap.kernel_heap_axioms)


text \<open>
  What the write goes to: the operations table of the entry and the offset of its write member.
\<close>

definition ops_and_offset :: "hook_env \<Rightarrow> u64 \<times> u64" where
  "ops_and_offset E =
     (let pde = PDE E (d_inode E (path_dentry E))
      in if kernel_version E \<ge> 5 * 65536 + 6 * 256 then (proc_ops_of E pde, off_proc_write E)
         else (proc_fops_of E pde, off_write E))"

text \<open>
  The installing thread puts the path back exactly once when it got one, as its last action, and
  never otherwise; it writes one slot, with the handler's address, exactly when every pointer on the
  way is there, at the offset of the kernel's version, and none otherwise.
\<close>

theorem hook_install:
  "let acts = ksu_init_hook_kallsyms_ops E handler; (ops, off) = ops_and_offset E
   in count_list acts Path_put = (if kern_path_error E = 0 then 1 else 0) \<and>
      (last acts = Path_put \<longleftrightarrow> kern_path_error E = 0) \<and>
      [(slot, v). Write_slot slot v \<leftarrow> acts] =
        (if kern_path_error E = 0 \<and> path_dentry E \<noteq> 0 \<and> d_inode E (path_dentry E) \<noteq> 0 \<and>
            PDE E (d_inode E (path_dentry E)) \<noteq> 0 \<and> ops \<noteq> 0
         then [(ops + off, handler)] else [])"
  by (simp add: ksu_init_hook_kallsyms_ops_def ops_and_offset_def hijack_slot_def step_ok_def Let_def)

text \<open>
  The client ends with status 0 exactly when opening the file gives a descriptor and the first
  word of the request comes back as the reply magic, with 1 in every other case.
\<close>

theorem userspace_main_status:
  "\<exists>r b. hd (trace_of K userspace_main k) = Called (Req SYS_openat [Val (- 100), Ptr, Val 1, Val 420] (TextBuf ''/proc/kallsyms'')) (r, b) \<and>
     (if (ucast (libc_result r) :: cint) <s 0
      then outcome_of K userspace_main k = Exited 1 \<and> length (trace_of K userspace_main k) = 1
      else \<exists>w b'. trace_of K userspace_main k ! 1 =
              Called (Req SYS_write [Val (scast (ucast (libc_result r) :: cint)), Ptr, Val 1] (WordsBuf [request_magic, 0, 1, 2, 3, 4, 5, 6])) (w, b') \<and>
            length (trace_of K userspace_main k) = 2 \<and>
            outcome_of K userspace_main k =
              Exited (if \<exists>ws. b' = WordsBuf (reply_magic # ws) then 0 else 1))"
proof -
  let ?opening = "Req SYS_openat [Val (- 100), Ptr, Val 1, Val 420] (TextBuf ''/proc/kallsyms'')"
  obtain r b k1 where K: "K k ?opening = ((r, b), k1)" by (metis prod.collapse)
  let ?fd = "ucast (libc_result r) :: cint"
  let ?request = "Req SYS_write [Val (scast ?fd), Ptr, Val 1] (WordsBuf [request_magic, 0, 1, 2, 3, 4, 5, 6])"
  obtain w b' k2 where W: "K k1 ?request = ((w, b'), k2)" by (metis prod.collapse)
  have "(if ?fd <s 0 then run K userspace_main k = (Exited 1, [Called ?opening (r, b)])
         else run K userspace_main k =
           (Exited (if \<exists>ws. b' = WordsBuf (reply_magic # ws) then 0 else 1), [Called ?opening (r, b), Called ?request (w, b')]))"
    using K W by (auto simp: userspace_main_def shitcall_def reg_words_def sys_exit_def Let_def split: uapi_buf.split list.split)
  then show ?thesis
    by (intro exI [of _ r] exI [of _ b]) (auto simp: outcome_of_def trace_of_def split: if_splits)
qed

section \<open>Client and handler together\<close>

abbreviation open_req :: "uapi_buf req" where
  "open_req \<equiv> Req SYS_openat [Val (- 100), Ptr, Val 1, Val 420] (TextBuf ''/proc/kallsyms'')"

abbreviation write_req :: "clong \<Rightarrow> nat \<Rightarrow> u64 list \<Rightarrow> uapi_buf req" where
  "write_req fd n ws \<equiv> Req SYS_write [Val (scast (ucast (libc_result fd) :: cint)), Ptr, Val (of_nat n)] (WordsBuf ws)"

text \<open>
  Any kernel with the handler in the write slot of the file: while \<open>fd\<close> is the file (\<open>hooked\<close>), a write of a size
  below the limit of one call runs the handler on the words of the caller, whose memory is then what the
  handler made of it. \<open>memory\<close> is that memory while the handler runs; the user copies work when it can be
  read and written, and report a fault otherwise, which the handler ignores after its reply. \<open>put\<close> is the
  switch to the caller's memory.
\<close>

locale hooked_file =
  fixes K :: "('s, uapi_buf) kernel" and api :: "'s ksym_api" and fd :: clong and hooked :: "'s \<Rightarrow> bool"
    and put :: "u64 list \<Rightarrow> 's \<Rightarrow> 's" and memory :: "'s \<Rightarrow> u64 list"
    and live :: "'s \<Rightarrow> nat set" and logged :: "'s \<Rightarrow> string list" and readable :: bool and writable :: bool
  assumes written: "hooked s \<Longrightarrow> n \<le> 0x7FFFF000 \<Longrightarrow> ksym_write api n (put ws s) = Some (s', r) \<Longrightarrow>
      K s (write_req fd n ws) = ((of_nat r, WordsBuf (memory s')), s')"
    and put: "memory (put ws s) = ws" "live (put ws s) = live s" "logged (put ws s) = logged s"
    and from_user: "n \<le> length (memory s) \<Longrightarrow>
      copy_from_user api n s = (if readable then Some (take n (memory s)) else None)"
    and to_user: "memory (copy_to_user api ws s) = (if writable then ws @ drop (length ws) (memory s) else memory s)"
      "live (copy_to_user api ws s) = live s" "logged (copy_to_user api ws s) = logged s"
    and log: "logged (pr_info api t s) = logged s @ [t]" "memory (pr_info api t s) = memory s" "live (pr_info api t s) = live s"
    and heap: "kernel_heap (kmalloc api) (kfree api) live"
    and heap_quiet: "kmalloc api sz fl s = Some (p, s') \<or> kfree api p s = Some s' \<Longrightarrow>
      memory s' = memory s \<and> logged s' = logged s"
begin

text \<open>What the handler does with a request of eight words.\<close>

lemma handled:
  assumes "length regs = 7"
  shows "\<exists>s'. ksym_write api n (put (reg_words regs) s) = Some (s', n) \<and> live s' = live s \<and>
    memory s' = (if readable \<and> writable then reply_magic # regs else reg_words regs) \<and>
    logged s' = logged s @ (if readable then [got_shitcall, spaced (map fmt_llx regs)] else [])"
proof (cases readable)
  case False
  then show ?thesis
    using assms put [of "reg_words regs" s] from_user [of 1 "put (reg_words regs) s"]
    by (simp add: ksym_write_def reg_words_def)
next
  case True
  let ?s = "pr_info api got_shitcall (put (reg_words regs) s)"
  let ?fl = "[GFP_KERNEL, GFP_NOFAIL, GFP_ZERO]"
  have s: "memory ?s = reg_words regs" "live ?s = live s" "logged ?s = logged s @ [got_shitcall]"
    by (simp_all add: put log)
  obtain p s0 where p: "kmalloc api 64 ?fl ?s = Some (p, s0)" "p \<noteq> 0"
    using kernel_heap.kmalloc_total [OF heap, of 64 ?fl ?s] by auto
  have s0: "memory s0 = reg_words regs" "logged s0 = logged s @ [got_shitcall]" "p \<notin> live s" "live s0 = insert p (live s)"
    using heap_quiet [of 64 ?fl ?s p s0] kernel_heap.kmalloc_live [OF heap p] p s by simp_all
  let ?s1 = "copy_to_user api [reply_magic] (pr_info api (spaced (map fmt_llx regs)) s0)"
  have s1: "live ?s1 = insert p (live s)" "logged ?s1 = logged s @ [got_shitcall, spaced (map fmt_llx regs)]"
    "memory ?s1 = (if writable then reply_magic # regs else reg_words regs)"
    by (simp_all add: to_user log s0 reg_words_def)
  obtain s2 where s2: "kfree api p ?s1 = Some s2" "live s2 = live ?s1 - {p}"
    using kernel_heap.kfree_live [OF heap p(2), of ?s1] s1(1) by auto
  have "ksym_write api n (put (reg_words regs) s) = Some (s2, n)"
    using assms True p s2(1) put(1) [of "reg_words regs" s] from_user [of 1 "put (reg_words regs) s"] from_user [of 8 s0] s0(1)
    by (simp add: ksym_write_def reg_words_def zoffstack_def scoped_kmalloc_def kfree_byref_def cleanup_var_def)
  then show ?thesis
    using True s1 s2 s0(3) heap_quiet [of 64 ?fl ?s1 p s2] by auto
qed

end

text \<open>
  C26: the client on any kernel on which opening the file succeeds and the handler is in its write slot: it ends with status 0
  when its request can be read and written back, and with 1 otherwise; the write answers its size,
  the handler has logged the greeting and the seven registers unless reading failed, it has freed its
  buffer, and the caller's memory is the request with the reply magic, or as it was.
\<close>

theorem ksym_handshake:
  assumes "hooked_file K api fd hooked put memory live logged readable writable"
    and "K s open_req = ((fd, b), s1)" and "0 \<le>s (ucast (libc_result fd) :: cint)" and "hooked s1"
  shows "outcome_of K userspace_main s = Exited (if readable \<and> writable then 0 else 1) \<and>
    (\<exists>s'. K s1 (write_req fd 1 (reg_words [0, 1, 2, 3, 4, 5, 6])) =
        ((1, WordsBuf (if readable \<and> writable then reply_magic # [0, 1, 2, 3, 4, 5, 6] else reg_words [0, 1, 2, 3, 4, 5, 6])), s') \<and>
      live s' = live s1 \<and>
      logged s' = logged s1 @ (if readable then [got_shitcall, spaced (map fmt_llx [0, 1, 2, 3, 4, 5, 6])] else []))"
proof -
  let ?regs = "[0, 1, 2, 3, 4, 5, 6] :: u64 list"
  obtain s' where h: "ksym_write api 1 (put (reg_words ?regs) s1) = Some (s', 1)" "live s' = live s1"
    "memory s' = (if readable \<and> writable then reply_magic # ?regs else reg_words ?regs)"
    "logged s' = logged s1 @ (if readable then [got_shitcall, spaced (map fmt_llx ?regs)] else [])"
    using hooked_file.handled [OF assms(1), of ?regs 1 s1] by auto
  have w: "K s1 (write_req fd 1 (reg_words ?regs)) = ((1, WordsBuf (memory s')), s')"
    using hooked_file.written [OF assms(1,4) _ h(1)] by simp
  have "\<not> (ucast (libc_result fd) :: cint) <s 0" using assms(3) by (simp add: word_sless_alt word_sle_eq)
  then have "outcome_of K userspace_main s = Exited (if readable \<and> writable then 0 else 1)"
    using w by (simp add: outcome_of_def userspace_main_def shitcall_def sys_exit_def assms(2) h(3) reg_words_def
        request_magic_def reply_magic_def Let_def)
  then show ?thesis using w h by (simp del: spaced.simps)
qed

text \<open>The contract on the kernel state, with a descriptor 3.\<close>

definition hooked_kernel :: "'s ksym_api \<Rightarrow> (u64 list \<Rightarrow> 's \<Rightarrow> 's) \<Rightarrow> ('s \<Rightarrow> u64 list) \<Rightarrow> clong \<Rightarrow> ('s, uapi_buf) kernel" where
  "hooked_kernel api put_reg get_reg fd s q =
     (case q of
        Req SYS_openat as b \<Rightarrow> ((fd, b), s)
      | Req SYS_write [_, _, Val count] (WordsBuf ws) \<Rightarrow>
          (case ksym_write api (unat count) (put_reg ws s) of
             None \<Rightarrow> ((- 14, WordsBuf ws), s)
           | Some (s, r) \<Rightarrow> ((of_nat r, WordsBuf (get_reg s)), s))
      | Req _ _ b \<Rightarrow> ((- 38, b), s))"

interpretation hooked: hooked_file "hooked_kernel kstate_api (\<lambda>ws s. s\<lparr>ureg := ws\<rparr>) ureg 3" kstate_api 3 "\<lambda>_. True"
    "\<lambda>ws s. s\<lparr>ureg := ws\<rparr>" ureg "\<lambda>s. set (allocs s)" klog True True
proof (rule hooked_file.intro)
  fix n ws r and s s' :: kstate
  assume n: "n \<le> 0x7FFFF000" and h: "ksym_write kstate_api n (s\<lparr>ureg := ws\<rparr>) = Some (s', r)"
  show "hooked_kernel kstate_api (\<lambda>ws s. s\<lparr>ureg := ws\<rparr>) ureg 3 s (write_req 3 n ws) = ((of_nat r, WordsBuf (ureg s')), s')"
    using h n by (simp add: hooked_kernel_def unat_of_nat take_bit_nat_eq_self)
qed (auto simp: hooked_kernel_def kstate_api_def kheap.kernel_heap_axioms k_malloc_def k_free_def drop_lock_def Let_def split: if_splits)

lemma ksym_handshake_witness:
  "outcome_of (hooked_kernel kstate_api (\<lambda>ws s. s\<lparr>ureg := ws\<rparr>) ureg 3) userspace_main idle_kernel = Exited 0"
proof -
  have fd: "0 \<le>s (ucast (libc_result 3) :: cint)" by code_simp
  have "hooked_kernel kstate_api (\<lambda>ws s. s\<lparr>ureg := ws\<rparr>) ureg 3 idle_kernel open_req = ((3, TextBuf ''/proc/kallsyms''), idle_kernel)"
    by (simp add: hooked_kernel_def)
  from ksym_handshake [OF hooked.hooked_file_axioms this fd] show ?thesis by simp
qed

section \<open>The cleanup demonstration in order\<close>

text \<open>What a run did, without the replies.\<close>

fun steps :: "'b event list \<Rightarrow> (string + 'b req) list" where
  "steps [] = []"
| "steps (Printed t # tr) = Inl t # steps tr"
| "steps (Called q r # tr) = Inr q # steps tr"

definition write_text :: "string \<Rightarrow> uapi_buf req" where
  "write_text s = Req SYS_write [Val 1, Ptr, Val (of_nat (length s))] (TextBuf s)"

text \<open>
  The cleanup functions run once each, in the reverse order of the declarations, after the
  body: the memory is freed first, then the pending text and the two numbers are printed. A failed
  allocation, an empty environment or a first entry that does not fit into the thousand bytes
  is a bad access before any cleanup.
\<close>

theorem example_cleanup_order:
  "\<exists>m b. hd (trace_of K (example_main envp) k) = Called (Req LIB_malloc [Val 1000] NoBuf) (m, b) \<and>
    (if m = 0 \<or> envp = [] \<or> 1000 \<le> length (hd envp)
     then outcome_of K (example_main envp) k = Faulted \<and>
       steps (trace_of K (example_main envp) k) = [Inr (Req LIB_malloc [Val 1000] NoBuf), Inr (write_text ''hello '')]
     else outcome_of K (example_main envp) k = Exited 0 \<and>
       steps (trace_of K (example_main envp) k) =
         [Inr (Req LIB_malloc [Val 1000] NoBuf), Inr (write_text ''hello ''), Inl (hd envp @ newline),
          Inr (Req LIB_free [Val m] NoBuf), Inr (write_text world), Inl (''1'' @ newline), Inl (''2'' @ newline)])"
proof -
  obtain m b k1 where K: "K k (Req LIB_malloc [Val 1000] NoBuf) = ((m, b), k1)" by (metis prod.collapse)
  have "fmt_d 1 = ''1''" "fmt_d 2 = ''2''"
    by (simp_all add: fmt_d_def show_base_def digits.simps digit_char_def)
  then show ?thesis
    using K
    by (cases envp)
      (auto simp: outcome_of_def trace_of_def example_main_def with_var_def leave_scope_def print_text_def print_int_def
        free_byref_def argv_at_def write_text_def Let_def split: prod.split)
qed

end
