(* ===== verification/ByteTricks.thy ===== *)
theory ByteTricks
  imports StartDemos
begin

text \<open>
  The byte level programs of \<open>c_shit\<close>: \<open>memccpy.c\<close>, a \<open>memccpy\<close> made of \<open>memchr\<close> and \<open>memcpy\<close>,
  \<open>int24_t.c\<close>, a three byte integer in a packed struct, and \<open>union.c\<close>. Memory objects are byte
  lists on a little-endian target; an access outside an object is \<open>None\<close>.
\<close>

section \<open>memccpy\<close>

text \<open>
  \<open>memchr\<close> reads byte after byte and stops at the first match; the offset of the match stands for
  the pointer. \<open>memcpy\<close> gives the destination after the copy.
\<close>

fun memchr :: "u8 list \<Rightarrow> u8 \<Rightarrow> nat \<Rightarrow> nat option option" where
  "memchr s c 0 = Some None"
| "memchr [] c (Suc n) = None"
| "memchr (b # s) c (Suc n) = (if b = c then Some (Some 0) else map_option (map_option Suc) (memchr s c n))"

definition memcpy :: "u8 list \<Rightarrow> u8 list \<Rightarrow> nat \<Rightarrow> u8 list option" where
  "memcpy dest src n =
     (if n \<le> length dest \<and> n \<le> length src then Some (take n src @ drop n dest) else None)"

text \<open>The result is the destination and the offset of the returned pointer in it, \<open>None\<close> for null.\<close>

definition memccpy :: "u8 list \<Rightarrow> u8 list \<Rightarrow> cint \<Rightarrow> nat \<Rightarrow> (u8 list \<times> nat option) option" where
  "memccpy dest src c n =
     (if n = 0 then Some (dest, None)
      else
        (let target = ucast c
         in case memchr src target n of
              None \<Rightarrow> None
            | Some (Some p) \<Rightarrow>
                (let len = p + 1 in map_option (\<lambda>dest. (dest, Some len)) (memcpy dest src len))
            | Some None \<Rightarrow> map_option (\<lambda>dest. (dest, None)) (memcpy dest src n)))"

text \<open>The standard's description: copy bytes until one equal to \<open>c\<close> is copied or \<open>n\<close> are.\<close>

fun memccpy_iso :: "u8 list \<Rightarrow> u8 list \<Rightarrow> u8 \<Rightarrow> nat \<Rightarrow> (u8 list \<times> nat option) option" where
  "memccpy_iso dest src c 0 = Some (dest, None)"
| "memccpy_iso (d # dest) (s # src) c (Suc n) =
     (if s = c then Some (s # dest, Some 1)
      else map_option (\<lambda>(dest, r). (s # dest, map_option Suc r)) (memccpy_iso dest src c n))"
| "memccpy_iso [] src c (Suc n) = None"
| "memccpy_iso (d # dest) [] c (Suc n) = None"

definition chr_copy :: "u8 list \<Rightarrow> u8 list \<Rightarrow> u8 \<Rightarrow> nat \<Rightarrow> (u8 list \<times> nat option) option" where
  "chr_copy dest src c n =
     (case memchr src c n of
        None \<Rightarrow> None
      | Some (Some p) \<Rightarrow> map_option (\<lambda>dest. (dest, Some (p + 1))) (memcpy dest src (p + 1))
      | Some None \<Rightarrow> map_option (\<lambda>dest. (dest, None)) (memcpy dest src n))"

lemma memchr_found:
  "memchr s c n = Some (Some p) \<Longrightarrow> p < n \<and> p < length s \<and> s ! p = c \<and> c \<notin> set (take p s)"
  by (induction s c n arbitrary: p rule: memchr.induct) (auto split: if_splits)

lemma chr_copy_iso: "chr_copy dest src c n = memccpy_iso dest src c n"
proof (induction dest src c n rule: memccpy_iso.induct)
  case (2 d dest s src c n)
  show ?case
  proof (cases "s = c")
    case False
    with 2 [symmetric] show ?thesis
      by (auto simp: chr_copy_def memcpy_def split: option.split)
  qed (simp add: chr_copy_def memcpy_def)
next
  case (3 src c n)
  show ?case
    by (cases "memchr src c (Suc n)") (auto simp: chr_copy_def memcpy_def split: option.split)
next
  case (4 d dest c n)
  show ?case by (simp add: chr_copy_def)
qed (simp add: chr_copy_def memcpy_def)

text \<open>
  C22: \<open>memccpy\<close> agrees with the byte by byte description of the standard on every input: the same
  bytes in the destination, the same returned pointer, and a bad access in exactly the same cases.
\<close>

theorem memccpy_is_iso: "memccpy dest src c n = memccpy_iso dest src (ucast c) n"
proof -
  have "memccpy dest src c n = chr_copy dest src (ucast c) n"
    by (cases "n = 0") (simp add: memccpy_def chr_copy_def memcpy_def, simp only: memccpy_def chr_copy_def Let_def if_False)
  then show ?thesis by (simp add: chr_copy_iso)
qed

text \<open>
  when \<open>memccpy\<close> returns, it has copied the first \<open>k\<close> bytes of the source, where \<open>k\<close> is at most
  \<open>n\<close> and is the returned offset if there is one, and has left the rest of the destination alone; a
  returned pointer is right behind the first occurrence of the byte.
\<close>

theorem memccpy_bounds:
  "case memccpy dest src c n of
     None \<Rightarrow> True
   | Some (dest', r) \<Rightarrow>
       (let k = case_option n id r
        in k \<le> n \<and> length dest' = length dest \<and> take k dest' = take k src \<and> drop k dest' = drop k dest \<and>
           (case r of
              None \<Rightarrow> ucast c \<notin> set (take n src)
            | Some p \<Rightarrow> 0 < p \<and> src ! (p - 1) = ucast c \<and> ucast c \<notin> set (take (p - 1) src)))"
proof -
  have absent: "memchr s b n = Some None \<Longrightarrow> b \<notin> set (take n s)" for s b n
    by (induction s b n rule: memchr.induct) (auto split: if_splits)
  show ?thesis
    using memchr_found [of src "ucast c" n] absent [of src "ucast c" n]
    by (auto simp: memccpy_def memcpy_def Let_def split: option.splits)
qed

section \<open>A three byte integer\<close>

definition int24_t :: ctype where
  "int24_t = Struct (Field ''buf'' (Arr 3 (Scalar 1)) NoField)"

definition store24 :: "cint \<Rightarrow> image" where
  "store24 y = take 3 (le_bytes y)"

definition load24 :: "image \<Rightarrow> image \<Rightarrow> cint" where
  "load24 buf x = le_word32 (put_at 0 x buf)"

definition print_line :: "string \<Rightarrow> uapi \<Rightarrow> uapi" where
  "print_line t k = puts (t @ newline) k"

definition int24_main :: uapi where
  "int24_main =
     print_line (show_base 10 (csizeof int24_t))
       (let x = replicate 3 0; buf = replicate 4 0; buf = put_at 0 x buf
        in print_line (fmt_d (le_word32 buf))
          (let y = 100100; x = put_at 0 (store24 y) x; buf = put_at 0 x buf
           in print_line (fmt_d (le_word32 buf))
             (let y = 10501; x = replicate 3 0; x = put_at 0 (store24 y) x;
                  buf = replicate 4 0; buf = put_at 0 x buf
              in print_line (fmt_d (le_word32 buf)) (Done (Exited 0)))))"

section \<open>A union\<close>

definition sulog_t :: ctype where
  "sulog_t = Union (Field ''uid'' (Scalar 4) (Field ''sym'' (Scalar 1) NoField))"

definition union_main :: uapi where
  "union_main =
     (let n = replicate (csizeof sulog_t) 0;
          n = put_at 0 [char_byte CHR ''x''] n;
          n = put_at 0 (le_bytes 1100400) n
      in print_line (show_base 10 (csizeof sulog_t) @ '' - '' @ [byte_char (n ! 0)] @ '' - '' @ fmt_d (le_word32 n))
           (Done (Exited 0)))"

lemma load24_store24: "load24 (replicate 4 0) (store24 y) = take_bit 24 y"
proof -
  have "load24 (replicate 4 0) (store24 y) = le_word32 [ucast y, ucast (drop_bit 8 y), ucast (drop_bit 16 y), 0]"
    by (simp add: load24_def store24_def le_bytes_def put_at_def eval_nat_numeral(1-3))
  also have "\<dots> = take_bit 24 y"
  proof (rule bit_word_eqI)
    fix n
    assume "n < LENGTH(32)"
    then have "n < 8 \<or> 8 \<le> n \<and> n < 16 \<or> 16 \<le> n \<and> n < 24 \<or> 24 \<le> n \<and> n < 32" by auto
    then show "bit (le_word32 [ucast y, ucast (drop_bit 8 y), ucast (drop_bit 16 y), 0]) n = bit (take_bit 24 y) n"
      by (elim disjE conjE) (auto simp: le_word32_def bit_simps)
  qed
  finally show ?thesis .
qed

section \<open>Properties\<close>

text \<open>
  a value stored in three bytes and loaded through a cleared buffer is the value modulo
  2 to the 24; exactly the values from 0 to 2 to the 24 minus 1 come back unchanged, so no negative
  one does.
\<close>

theorem int24_roundtrip:
  "load24 (replicate 4 0) (store24 y) = y AND 0xFFFFFF \<and>
   (load24 (replicate 4 0) (store24 y) = y \<longleftrightarrow> unat y < 2 ^ 24) \<and>
   0 \<le> sint (load24 (replicate 4 0) (store24 y))"
proof -
  have "load24 (replicate 4 0) (store24 y) = take_bit 24 y" by (rule load24_store24)
  moreover have "y AND 0xFFFFFF = take_bit 24 y"
    by (simp add: take_bit_eq_mask mask_eq_exp_minus_1)
  moreover have "take_bit 24 y = y \<longleftrightarrow> unat y < 2 ^ 24"
    by (simp add: word_unat_eq_iff unsigned_take_bit_eq take_bit_nat_eq_self_iff)
  moreover have "0 \<le> sint (take_bit 24 y)"
    by (simp add: sint_uint signed_take_bit_eq_if_positive bit_simps)
  ultimately show ?thesis by simp
qed

text \<open>
  What the two demonstrations print: the integer is read back from the three bytes, and
  writing the union's number overwrites its character.
\<close>

theorem byte_demos_print:
  "run K int24_main k = (Exited 0, map (\<lambda>t. Printed (t @ newline)) [''3'', ''0'', ''100100'', ''10501'']) \<and>
   run K union_main k = (Exited 0, [Printed (''4 - p - 1100400'' @ newline)])"
proof -
  have x: "put_at 0 (store24 y) (replicate 3 0) = store24 y" for y
    by (simp add: put_at_def store24_def length_le_bytes)
  have zero: "put_at 0 (replicate 3 0) (replicate 4 0) = replicate 4 (0 :: u8)"
    by (simp add: put_at_def eval_nat_numeral)
  have load: "le_word32 (put_at 0 (store24 y) (replicate 4 0)) = take_bit 24 y" for y
    using load24_store24 by (simp add: load24_def)
  have int24: "int24_main = print_line ''3'' (print_line ''0'' (print_line ''100100'' (print_line ''10501'' (Done (Exited 0)))))"
  proof -
    have "csizeof int24_t = 3" by (simp add: int24_t_def align_up_def)
    moreover have "show_base 10 3 = ''3''" "fmt_d 0 = ''0''" "fmt_d 100100 = ''100100''" "fmt_d 10501 = ''10501''"
      by (simp_all add: fmt_d_def show_base_def digits.simps digit_char_def)
    moreover have "le_word32 (replicate 4 0) = 0" by code_simp
    moreover have "take_bit 24 (100100 :: cint) = 100100" "take_bit 24 (10501 :: cint) = 10501" by simp_all
    ultimately show ?thesis
      unfolding int24_main_def Let_def x zero load by (simp only:)
  qed
  have union: "union_main = print_line ''4 - p - 1100400'' (Done (Exited 0))"
  proof -
    have sz: "csizeof sulog_t = 4" by (simp add: sulog_t_def align_up_def)
    have over: "put_at 0 (le_bytes 1100400) (put_at 0 [b] (replicate 4 0)) = le_bytes 1100400" for b
      by (simp add: put_at_def length_le_bytes)
    have "byte_char (le_bytes 1100400 ! 0) = CHR ''p''" by code_simp
    moreover have "fmt_d 1100400 = ''1100400''" "show_base 10 4 = ''4''"
      by (simp_all add: fmt_d_def show_base_def digits.simps digit_char_def)
    ultimately show ?thesis
      unfolding union_main_def Let_def sz over le_word32_bytes by simp
  qed
  show ?thesis unfolding int24 union print_line_def by simp
qed

end
