(* ===== verification/KernelHeader.thy ===== *)
theory KernelHeader
  imports Scopes ByteTricks
begin

text \<open>
  The macros and functions of \<open>lkm_template/kernel.h\<close> that compute something: \<open>make128const\<close>,
  \<open>countof\<close>, \<open>assume\<close>, \<open>memset_explicit\<close>, the fixed-size byte functions and the generated names. (Its scoped locks and
  allocations are in the theory of scopes; the rest of the header only gives other names to what the
  compiler or the kernel has.)
\<close>

section \<open>Array lengths and clearing\<close>

text \<open>
  \<open>sizeof(a) / sizeof(a[0])\<close> of an array or of a pointer; \<open>memset\<close> through the function pointer,
  \<open>None\<close> when it writes outside the object.
\<close>

datatype c_sequence = Array nat ctype | Pointer ctype

definition sequence_sizeof :: "c_sequence \<Rightarrow> nat" where
  "sequence_sizeof a = (case a of Array k t \<Rightarrow> csizeof (Arr k t) | Pointer t \<Rightarrow> 8)"

definition element_sizeof :: "c_sequence \<Rightarrow> nat" where
  "element_sizeof a = (case a of Array k t \<Rightarrow> csizeof t | Pointer t \<Rightarrow> csizeof t)"

definition countof :: "c_sequence \<Rightarrow> nat" where
  "countof a = sequence_sizeof a div element_sizeof a"

definition memset_explicit :: "u8 list \<Rightarrow> cint \<Rightarrow> nat \<Rightarrow> u8 list option" where
  "memset_explicit s c count = (if count \<le> length s then Some (replicate count (ucast c) @ drop count s) else None)"

text \<open>
  \<open>countof\<close> is the length of an array of any element type with a size, and clearing an array
  of \<open>countof\<close> elements by the size of the array leaves no byte of it; for a pointer the macro
  compiles too and gives a number that has nothing to do with the array behind it.
\<close>

theorem countof_and_clearing:
  "(if 0 < csizeof t then countof (Array k t) = k else True) \<and>
   (if length s = csizeof (Arr k t)
    then memset_explicit s c (countof (Array k t) * csizeof t) = Some (replicate (length s) (ucast c))
    else True) \<and>
   countof (Pointer (Scalar 4)) = 2 \<and> countof (Pointer (Scalar 16)) = 0"
  by (simp add: countof_def sequence_sizeof_def element_sizeof_def memset_explicit_def)

section \<open>128-bit constants\<close>

type_synonym int128_t = "128 word"

text \<open>
  \<open>(((int128_t)hi << 64) | lo)\<close>: the cast converts \<open>hi\<close> by its own type, and the usual arithmetic
  conversions convert \<open>lo\<close>: zero extension for an unsigned type, sign extension for a signed one.
\<close>

datatype c_operand = Unsigned u64 | Signed clong

definition to_int128 :: "c_operand \<Rightarrow> int128_t" where
  "to_int128 x = (case x of Unsigned w \<Rightarrow> ucast w | Signed w \<Rightarrow> scast w)"

definition make128const :: "c_operand \<Rightarrow> c_operand \<Rightarrow> int128_t" where
  "make128const hi lo = (push_bit 64 (to_int128 hi) OR to_int128 lo)"

definition operand_bits :: "c_operand \<Rightarrow> u64" where
  "operand_bits x = (case x of Unsigned w \<Rightarrow> w | Signed w \<Rightarrow> w)"

definition high_half :: "int128_t \<Rightarrow> u64" where "high_half x = ucast (drop_bit 64 x)"
definition low_half :: "int128_t \<Rightarrow> u64" where "low_half x = ucast x"

text \<open>
  the two halves of the constant are the bits of the operands exactly when the low operand is of
  an unsigned type or not negative; a negative low operand leaves its own bits in the low half and
  sets every bit of the high half that a constant of -1 would.
\<close>

theorem make128const_halves:
  "low_half (make128const hi lo) = operand_bits lo \<and>
   high_half (make128const hi lo) =
     (case lo of Signed w \<Rightarrow> if w <s 0 then - 1 else operand_bits hi | Unsigned w \<Rightarrow> operand_bits hi) \<and>
   (high_half (make128const hi lo) = operand_bits hi \<longleftrightarrow>
      operand_bits hi = - 1 \<or> (case lo of Signed w \<Rightarrow> 0 \<le>s w | Unsigned w \<Rightarrow> True))"
proof -
  have low: "low_half (make128const hi lo) = operand_bits lo"
    by (rule bit_word_eqI)
       (auto simp: low_half_def make128const_def to_int128_def operand_bits_def bit_simps split: c_operand.split)
  have ext: "bit (scast (w :: clong) :: int128_t) (64 + n) = (w <s 0)" if "n < 64" for w n
    using that bit_last_iff [of w] by (auto simp: bit_simps word_sless_alt min_def not_le)
  have bits: "bit (high_half (make128const hi lo)) n \<longleftrightarrow>
      bit (operand_bits hi) n \<or> (case lo of Signed w \<Rightarrow> w <s 0 | Unsigned w \<Rightarrow> False)" if "n < 64" for n
  proof -
    have "bit (to_int128 hi) n = bit (operand_bits hi) n"
      using that by (cases hi) (auto simp: to_int128_def operand_bits_def bit_simps)
    moreover have "bit (to_int128 lo) (64 + n) = (case lo of Signed w \<Rightarrow> w <s 0 | Unsigned w \<Rightarrow> False)"
      by (cases lo) (simp_all only: to_int128_def c_operand.case ext [OF that], auto simp: bit_simps dest: bit_imp_le_length)
    ultimately show ?thesis
      using that by (simp add: high_half_def make128const_def bit_simps)
  qed
  have high: "high_half (make128const hi lo) =
     (case lo of Signed w \<Rightarrow> if w <s 0 then - 1 else operand_bits hi | Unsigned w \<Rightarrow> operand_bits hi)"
    by (rule bit_word_eqI) (auto simp: bits split: c_operand.split)
  have "(if w <s 0 then - 1 else b) = b \<longleftrightarrow> b = - 1 \<or> 0 \<le>s w" for w b :: "64 word"
    by (cases "w <s 0") (auto simp: word_sless_alt word_sle_eq)
  with low high show ?thesis by (cases lo) simp_all
qed

section \<open>Assumptions and fixed-size byte functions\<close>

text \<open>
  A wrong assumption makes the path unreachable (\<open>None\<close>). The fixed-size functions refuse, when
  compiled, a size that is not a constant; \<open>memcmp\<close> gives the sign of the first difference.
\<close>

definition assume_then :: "bool \<Rightarrow> 'a option \<Rightarrow> 'a option" where
  "assume_then expr rest = (if \<not> expr then None else rest)"

datatype c_size = Constant nat | Computed nat

definition constant_p :: "c_size \<Rightarrow> nat option" where
  "constant_p n = (case n of Constant k \<Rightarrow> Some k | Computed k \<Rightarrow> None)"

fun memcmp :: "u8 list \<Rightarrow> u8 list \<Rightarrow> nat \<Rightarrow> int option" where
  "memcmp cs ct 0 = Some 0"
| "memcmp (a # cs) (b # ct) (Suc n) =
     (if n \<le> length cs \<and> n \<le> length ct then if a = b then memcmp cs ct n else Some (if a < b then - 1 else 1) else None)"
| "memcmp cs ct (Suc n) = None"

definition memcmp_inline :: "u8 list \<Rightarrow> u8 list \<Rightarrow> c_size \<Rightarrow> int option" where
  "memcmp_inline cs ct count = Option.bind (constant_p count) (memcmp cs ct)"

definition memcpy_inline :: "u8 list \<Rightarrow> u8 list \<Rightarrow> c_size \<Rightarrow> u8 list option" where
  "memcpy_inline dst src sz = Option.bind (constant_p sz) (memcpy dst src)"

definition memset_inline :: "u8 list \<Rightarrow> cint \<Rightarrow> c_size \<Rightarrow> u8 list option" where
  "memset_inline dst val sz = Option.bind (constant_p sz) (memset_explicit dst val)"

lemma memcmp_defined: "memcmp cs ct n = None \<longleftrightarrow> length cs < n \<or> length ct < n"
  by (induction cs ct n rule: memcmp.induct) auto

lemma memcmp_equal: "memcmp cs ct n = Some 0 \<longleftrightarrow> n \<le> length cs \<and> n \<le> length ct \<and> take n cs = take n ct"
  by (induction cs ct n rule: memcmp.induct) auto

text \<open>What is copied compares equal to its source, and what is set compares equal to so many bytes.\<close>

lemma memcmp_after_memcpy: "memcpy_inline dst src sz = Some dst' \<Longrightarrow> memcmp_inline dst' src sz = Some 0"
  by (auto simp: memcpy_inline_def memcmp_inline_def memcpy_def memcmp_equal bind_eq_Some_conv split: if_splits)

lemma memcmp_after_memset:
  "memset_inline dst val (Constant n) = Some dst' \<Longrightarrow> memcmp_inline dst' (replicate n (ucast val)) (Constant n) = Some 0"
  by (auto simp: memset_inline_def memcmp_inline_def memset_explicit_def constant_p_def memcmp_equal split: if_splits)

section \<open>Names of the scoped variables\<close>

text \<open>
  The two levels of macros expand \<open>__COUNTER__\<close> before the names are joined, so that two guards in one
  function have different variables.
\<close>

definition dummy_var :: "nat \<Rightarrow> string" where
  "dummy_var counter = ''_fgp_dummy_'' @ show_base 10 counter"

lemma dummy_vars_differ: "dummy_var m = dummy_var n \<longleftrightarrow> m = n"
proof -
  have "m = n" if "show_base 10 m = show_base 10 n"
    using arg_cong [OF that, of "read_base 10"] by (simp add: read_show_base)
  then show ?thesis by (auto simp only: dummy_var_def same_append_eq)
qed

end
