(* ===== verification/KsymWriters.thy ===== *)
theory KsymWriters
  imports Scopes
begin

text \<open>
  Several writers in the handler of \<open>proc_ops/proc_kallsyms_test.h\<close> at once: the handler as a
  program counter between its calls into the kernel, interleaved with other writers and with whatever
  else changes the state in between, the request in user memory included.
\<close>

section \<open>The handler in steps\<close>

text \<open>
  Where a writer is: before it reads the magic, logs the greeting, allocates, copies the request,
  logs it, replies, frees, or back in user space with its result.
\<close>

datatype writer =
    ReadMagic | Greet | Allocate | CopyRequest nat | LogRequest nat "u64 list" | Reply nat | Leave nat | Returned nat

fun writer_step :: "'s ksym_api \<Rightarrow> nat \<Rightarrow> writer \<Rightarrow> 's \<Rightarrow> (writer \<times> 's) option" where
  "writer_step api sz ReadMagic s =
     Some (case copy_from_user api 1 s of
             None \<Rightarrow> Returned sz
           | Some magic \<Rightarrow> if hd magic \<noteq> request_magic then Returned sz else Greet, s)"
| "writer_step api sz Greet s = Some (Allocate, pr_info api got_shitcall s)"
| "writer_step api sz Allocate s =
     map_option (\<lambda>(buf, s). (if buf = 0 then Leave buf else CopyRequest buf, s))
       (kmalloc api 64 [GFP_KERNEL, GFP_NOFAIL, GFP_ZERO] s)"
| "writer_step api sz (CopyRequest buf) s =
     Some (case copy_from_user api 8 s of None \<Rightarrow> Leave buf | Some reg \<Rightarrow> LogRequest buf reg, s)"
| "writer_step api sz (LogRequest buf reg) s = Some (Reply buf, pr_info api (spaced (map fmt_llx (tl reg))) s)"
| "writer_step api sz (Reply buf) s = Some (Leave buf, copy_to_user api [reply_magic] s)"
| "writer_step api sz (Leave buf) s = map_option (Pair (Returned sz)) (kfree api buf s)"
| "writer_step api sz (Returned r) s = Some (Returned r, s)"

text \<open>A writer that is left alone: seven steps are enough, and they are the handler.\<close>

fun writer_alone :: "'s ksym_api \<Rightarrow> nat \<Rightarrow> nat \<Rightarrow> writer \<times> 's \<Rightarrow> (writer \<times> 's) option" where
  "writer_alone api sz 0 x = Some x"
| "writer_alone api sz (Suc n) x = Option.bind (writer_step api sz (fst x) (snd x)) (writer_alone api sz n)"

lemma writer_alone_Returned [simp]: "writer_alone api sz n (Returned r, s) = Some (Returned r, s)"
  by (induction n) simp_all

section \<open>Writers side by side\<close>

text \<open>
  A configuration is the state of the kernel, the allocations that belong to others, and the writers.
  Writer \<open>i\<close> has its own user memory and size. Others may change the state as they like, the
  requests included, but not free the buffer of a writer; a misuse of the allocator ends the system.
\<close>

fun held_buffer :: "writer \<Rightarrow> nat list" where
  "held_buffer (CopyRequest buf) = [buf]"
| "held_buffer (LogRequest buf reg) = [buf]"
| "held_buffer (Reply buf) = [buf]"
| "held_buffer (Leave buf) = (if buf = 0 then [] else [buf])"
| "held_buffer w = []"

definition buffers :: "writer list \<Rightarrow> nat list" where
  "buffers ws = concat (map held_buffer ws)"

lemma distinct_held: "distinct (held_buffer w)"
  by (cases w) simp_all

definition owns :: "('s \<Rightarrow> nat set) \<Rightarrow> 's \<times> nat set \<times> writer list \<Rightarrow> bool" where
  "owns live x = (case x of (s, others, ws) \<Rightarrow>
     live s = others \<union> set (buffers ws) \<and> others \<inter> set (buffers ws) = {} \<and> distinct (buffers ws) \<and> 0 \<notin> set (buffers ws))"

inductive writers_step ::
  "(nat \<Rightarrow> 's ksym_api) \<Rightarrow> (nat \<Rightarrow> nat) \<Rightarrow> ('s \<Rightarrow> nat set) \<Rightarrow>
   ('s \<times> nat set \<times> writer list) option \<Rightarrow> ('s \<times> nat set \<times> writer list) option \<Rightarrow> bool"
  for api sz live where
  enter: "writers_step api sz live (Some (s, others, ws)) (Some (s, others, ws @ [ReadMagic]))"
| run: "i < length ws \<Longrightarrow> writer_step (api i) (sz i) (ws ! i) s = Some (w, s') \<Longrightarrow>
     writers_step api sz live (Some (s, others, ws)) (Some (s', others, ws[i := w]))"
| misuse: "i < length ws \<Longrightarrow> writer_step (api i) (sz i) (ws ! i) s = None \<Longrightarrow>
     writers_step api sz live (Some (s, others, ws)) None"
| rest: "owns live (s', others', ws) \<Longrightarrow>
     writers_step api sz live (Some (s, others, ws)) (Some (s', others', ws))"

inductive_cases writers_stepE [elim]: "writers_step api sz live (Some x) y"

text \<open>What the handler relies on, for every writer: the allocator's contract; logging and replying allocate nothing.\<close>

locale writer_kernel =
  fixes api :: "nat \<Rightarrow> 's ksym_api" and live :: "'s \<Rightarrow> nat set"
  assumes heap: "kernel_heap (kmalloc (api i)) (kfree (api i)) live"
    and log_quiet: "live (pr_info (api i) t s) = live s"
    and reply_quiet: "live (copy_to_user (api i) ws s) = live s"
begin

text \<open>One step of one writer, seen from its buffer: the others' allocations \<open>F\<close> stay as they are.\<close>

lemma writer_step_owns:
  assumes "live s = F \<union> set (held_buffer w)" and "F \<inter> set (held_buffer w) = {}" and "0 \<notin> set (held_buffer w)"
  shows "\<exists>w' s'. writer_step (api i) n w s = Some (w', s') \<and> live s' = F \<union> set (held_buffer w') \<and>
    F \<inter> set (held_buffer w') = {} \<and> 0 \<notin> set (held_buffer w')"
proof -
  note h = heap [of i]
  show ?thesis
  proof (cases w)
    case Allocate
    obtain p s' where p: "kmalloc (api i) 64 [GFP_KERNEL, GFP_NOFAIL, GFP_ZERO] s = Some (p, s')"
      using kernel_heap.kmalloc_total [OF h] by blast
    then show ?thesis
      using assms Allocate kernel_heap.kmalloc_live [OF h p] kernel_heap.kmalloc_fail [OF h, of 64 _ s s'] by (cases "p = 0") auto
  next
    case (Leave buf)
    show ?thesis
    proof (cases "buf = 0")
      case True
      then show ?thesis using assms Leave kernel_heap.kfree_null [OF h] by simp
    next
      case False
      then obtain s' where "kfree (api i) buf s = Some s'" "live s' = live s - {buf}"
        using assms Leave kernel_heap.kfree_live [OF h, of buf s] by auto
      then show ?thesis using assms Leave False by auto
    qed
  qed (use assms in \<open>auto simp: log_quiet reply_quiet split: option.split\<close>)
qed

lemma run_owns:
  assumes "owns live (s, others, us @ w # vs)"
  shows "\<exists>w' s'. writer_step (api i) n w s = Some (w', s') \<and> owns live (s', others, us @ w' # vs)"
proof -
  let ?F = "others \<union> set (buffers us) \<union> set (buffers vs)"
  have bufs: "buffers (us @ v # vs) = buffers us @ held_buffer v @ buffers vs" for v by (simp add: buffers_def)
  have "live s = ?F \<union> set (held_buffer w)" "?F \<inter> set (held_buffer w) = {}" "0 \<notin> set (held_buffer w)"
    using assms by (auto simp: owns_def bufs)
  from writer_step_owns [OF this, of i n] obtain w' s' where step: "writer_step (api i) n w s = Some (w', s')"
    "live s' = ?F \<union> set (held_buffer w')" "?F \<inter> set (held_buffer w') = {}" "0 \<notin> set (held_buffer w')"
    by blast
  have old: "others \<inter> set (buffers us) = {}" "others \<inter> set (buffers vs) = {}" "distinct (buffers us)" "distinct (buffers vs)"
    "set (buffers us) \<inter> set (buffers vs) = {}" "0 \<notin> set (buffers us)" "0 \<notin> set (buffers vs)"
    using assms by (simp_all add: owns_def bufs Int_Un_distrib)
  have "owns live (s', others, us @ w' # vs)"
    unfolding owns_def bufs prod.case distinct_append set_append
    by (intro conjI) (use old step(2-4) distinct_held in blast)+
  with step(1) show ?thesis by blast
qed

lemma writers_step_owns:
  assumes "writers_step api sz live (Some x) y" and "owns live x"
  shows "\<exists>x'. y = Some x' \<and> owns live x'"
  using assms(1)
proof cases
  case (enter s others ws)
  then show ?thesis using assms(2) by (simp add: owns_def buffers_def)
next
  case (run i ws s w s' others)
  then have ws: "ws = take i ws @ ws ! i # drop (Suc i) ws" by (simp add: id_take_nth_drop)
  from run_owns [of s others "take i ws" "ws ! i" "drop (Suc i) ws" i "sz i"] show ?thesis
    using run assms(2) ws by (auto simp: upd_conv_take_nth_drop)
next
  case (misuse i ws s others)
  then have ws: "ws = take i ws @ ws ! i # drop (Suc i) ws" by (simp add: id_take_nth_drop)
  from run_owns [of s others "take i ws" "ws ! i" "drop (Suc i) ws" i "sz i"] show ?thesis
    using misuse assms(2) ws by auto
qed auto

lemma reachable_owns:
  assumes "(writers_step api sz live)\<^sup>*\<^sup>* (Some x0) y" and "owns live x0"
  shows "\<exists>x. y = Some x \<and> owns live x"
  using assms(1)
proof induction
  case (step y z)
  then show ?case using writers_step_owns by blast
qed (use assms(2) in simp)

end

section \<open>Each writer on its own\<close>

text \<open>Every own step brings a writer closer to its return, whatever happens in between, and it returns its size.\<close>

fun steps_left :: "writer \<Rightarrow> nat" where
  "steps_left ReadMagic = 7"
| "steps_left Greet = 6"
| "steps_left Allocate = 5"
| "steps_left (CopyRequest buf) = 4"
| "steps_left (LogRequest buf reg) = 3"
| "steps_left (Reply buf) = 2"
| "steps_left (Leave buf) = 1"
| "steps_left (Returned r) = 0"

lemma writer_step_closer:
  "writer_step a n w s = Some (w', s') \<Longrightarrow> (\<exists>r. w = Returned r) \<and> w' = w \<or> steps_left w' < steps_left w"
  by (cases w) (auto split: option.splits if_splits)

definition answers :: "(nat \<Rightarrow> nat) \<Rightarrow> writer list \<Rightarrow> bool" where
  "answers sz ws \<longleftrightarrow> (\<forall>i r. i < length ws \<longrightarrow> ws ! i = Returned r \<longrightarrow> r = sz i)"

lemma writer_step_answers: "writer_step a n w s = Some (Returned r, s') \<Longrightarrow> w = Returned r \<or> r = n"
  by (cases w) (auto split: option.splits if_splits)

lemma reachable_answers:
  assumes "(writers_step api sz live)\<^sup>*\<^sup>* (Some (s0, others0, [])) y" and "y = Some (s, others, ws)"
  shows "answers sz ws"
  using assms
proof (induction arbitrary: s others ws)
  case (step y z)
  from step.hyps(2) [unfolded step.prems] show ?case
  proof cases
    case (enter ws0)
    with step.IH have "answers sz ws0" by blast
    with enter show ?thesis by (auto simp: answers_def nth_append less_Suc_eq)
  next
    case (run i ws0 s0 w)
    with step.IH have "answers sz ws0" by blast
    with run writer_step_answers show ?thesis by (fastforce simp: answers_def nth_list_update)
  next
    case (rest s0 others0)
    with step.IH show ?thesis by blast
  qed
qed (simp add: answers_def)

section \<open>The kernel state with a memory per writer\<close>

definition writer_api :: "nat \<Rightarrow> (kstate \<times> (nat \<Rightarrow> u64 list)) ksym_api" where
  "writer_api i = \<lparr>
     copy_from_user = (\<lambda>n (s, m). if n \<le> length (m i) then Some (take n (m i)) else None),
     copy_to_user = (\<lambda>ws (s, m). (s, m(i := ws @ drop (length ws) (m i)))),
     pr_info = (\<lambda>t (s, m). (s\<lparr>klog := klog s @ [t]\<rparr>, m)),
     kmalloc = (\<lambda>n fl (s, m). map_option (\<lambda>(p, s). (p, (s, m))) (k_malloc n fl s)),
     kfree = (\<lambda>p (s, m). map_option (\<lambda>s. (s, m)) (k_free p s))\<rparr>"

definition writer_allocs :: "kstate \<times> (nat \<Rightarrow> u64 list) \<Rightarrow> nat set" where
  "writer_allocs x = set (allocs (fst x))"

interpretation memories: writer_kernel writer_api writer_allocs
proof (rule writer_kernel.intro)
  show "kernel_heap (kmalloc (writer_api i)) (kfree (writer_api i)) writer_allocs" for i
    using fresh_addr
    by unfold_locales
      (auto simp: writer_api_def writer_allocs_def k_malloc_def k_free_def drop_lock_def Let_def simp del: Max_insert split: if_splits)
qed (auto simp: writer_api_def writer_allocs_def)

text \<open>A schedule names the writer that moves next; a number without a writer starts one.\<close>

fun schedule :: "(nat \<Rightarrow> 's ksym_api) \<Rightarrow> (nat \<Rightarrow> nat) \<Rightarrow> nat list \<Rightarrow> 's \<times> writer list \<Rightarrow> ('s \<times> writer list) option" where
  "schedule api sz [] x = Some x"
| "schedule api sz (i # is) (s, ws) =
     (if i < length ws
      then (case writer_step (api i) (sz i) (ws ! i) s of None \<Rightarrow> None | Some (w, s) \<Rightarrow> schedule api sz is (s, ws[i := w]))
      else schedule api sz is (s, ws @ [ReadMagic]))"

lemma schedule_reachable:
  "schedule api sz is (s, ws) = Some (s', ws') \<Longrightarrow>
     (writers_step api sz live)\<^sup>*\<^sup>* (Some (s, others, ws)) (Some (s', others, ws'))"
proof (induction "is" arbitrary: s ws)
  case (Cons i "is")
  show ?case
  proof (cases "i < length ws")
    case True
    with Cons.prems obtain w t where w: "writer_step (api i) (sz i) (ws ! i) s = Some (w, t)"
      "schedule api sz is (t, ws[i := w]) = Some (s', ws')"
      by (auto split: option.splits)
    have "writers_step api sz live (Some (s, others, ws)) (Some (t, others, ws[i := w]))"
      using True w(1) by (rule writers_step.run)
    then show ?thesis by (rule converse_rtranclp_into_rtranclp) (rule Cons.IH [OF w(2)])
  next
    case False
    with Cons.prems have rest: "schedule api sz is (s, ws @ [ReadMagic]) = Some (s', ws')" by simp
    have "writers_step api sz live (Some (s, others, ws)) (Some (s, others, ws @ [ReadMagic]))"
      by (rule writers_step.enter)
    then show ?thesis by (rule converse_rtranclp_into_rtranclp) (rule Cons.IH [OF rest])
  qed
qed simp

section \<open>Properties\<close>

text \<open>
  a handler that is left alone for seven steps has done what \<open>ksym_write\<close> does: it has returned
  the size in the state of the function, or misused the allocator where the function does.
\<close>

theorem handler_steps_are_ksym_write:
  "writer_alone api sz 7 (ReadMagic, s) = map_option (\<lambda>(s, r). (Returned r, s)) (ksym_write api sz s)"
  by (auto simp: ksym_write_def zoffstack_def scoped_kmalloc_def cleanup_var_def kfree_byref_def Let_def eval_nat_numeral
      split: option.split prod.split)

text \<open>
  C23: any number of writers at once, in any order of their steps and with the rest of the kernel and of user
  space doing anything in between that frees no writer's buffer: no allocation is misused (no double
  free and no free of a foreign buffer), the live allocations are those of the others and one distinct buffer for
  each writer between its allocation and its end, every result is the writer's size, and
  once all writers are back only the others' allocations are left.
\<close>

theorem concurrent_writers_safe:
  assumes "writer_kernel api live" and "(writers_step api sz live)\<^sup>*\<^sup>* (Some (s0, live s0, [])) y"
  shows "\<exists>s others ws. y = Some (s, others, ws) \<and> live s = others \<union> set (buffers ws) \<and> others \<inter> set (buffers ws) = {} \<and>
    distinct (buffers ws) \<and> answers sz ws \<and> (if set ws \<subseteq> range Returned then live s = others else True)"
proof -
  have "owns live (s0, live s0, [])" by (simp add: owns_def buffers_def)
  from writer_kernel.reachable_owns [OF assms this] obtain s others ws
    where y: "y = Some (s, others, ws)" and own: "owns live (s, others, ws)" by auto
  have "buffers ws = []" if "set ws \<subseteq> range Returned"
    using that by (auto simp: buffers_def)
  with own y reachable_answers [OF assms(2) y] show ?thesis by (auto simp: owns_def)
qed

definition two_requests :: "kstate \<times> (nat \<Rightarrow> u64 list)" where
  "two_requests = (idle_kernel, \<lambda>i. reg_words (replicate 7 (of_nat i)))"

text \<open>Two writers that hold a buffer each.\<close>

lemma concurrent_writers_safe_witness:
  "\<exists>s ws. (writers_step writer_api (\<lambda>_. 1) writer_allocs)\<^sup>*\<^sup>*
       (Some (two_requests, {}, [])) (Some (s, {}, ws)) \<and> buffers ws = [1, 2] \<and> writer_allocs s = {1, 2}"
proof -
  obtain s where run: "schedule writer_api (\<lambda>_. 1) [0, 1, 0, 1, 0, 1, 0, 1] (two_requests, []) = Some (s, [CopyRequest 1, CopyRequest 2])"
    by (simp add: two_requests_def writer_api_def idle_kernel_def reg_words_def k_malloc_def)
  have none: "writer_allocs two_requests = {}" by (simp add: two_requests_def writer_allocs_def idle_kernel_def)
  have reach: "(writers_step writer_api (\<lambda>_. 1) writer_allocs)\<^sup>*\<^sup>*
      (Some (two_requests, {}, [])) (Some (s, {}, [CopyRequest 1, CopyRequest 2]))"
    by (rule schedule_reachable [OF run])
  have "writer_allocs s = {1, 2}"
    using concurrent_writers_safe [OF memories.writer_kernel_axioms reach [folded none]]
    by (auto simp: none buffers_def)
  with reach show ?thesis by (intro exI [of _ s] exI [of _ "[CopyRequest 1, CopyRequest 2]"]) (simp add: buffers_def)
qed

text \<open>
  The handler fetches the request twice and looks at the magic of the first fetch only: when user
  space changes the request in between, what is logged and answered never carried the magic.
\<close>

theorem request_fetched_twice:
  "\<exists>s reg. (writers_step writer_api (\<lambda>_. 1) writer_allocs)\<^sup>*\<^sup>* (Some (two_requests, {}, [])) (Some (s, {}, [LogRequest 1 reg])) \<and>
     hd reg \<noteq> request_magic"
proof -
  obtain s m where run: "schedule writer_api (\<lambda>_. 1) [0, 0, 0] (two_requests, []) = Some ((s, m), [Allocate])"
    and free: "allocs s = []" "next_addr s = 0"
    by (simp add: two_requests_def writer_api_def idle_kernel_def reg_words_def)
  let ?m = "m(0 := 7 # replicate 7 0)"
  have "(writers_step writer_api (\<lambda>_. 1) writer_allocs)\<^sup>*\<^sup>* (Some (two_requests, {}, [])) (Some ((s, m), {}, [Allocate]))"
    by (rule schedule_reachable [OF run])
  moreover have "writers_step writer_api (\<lambda>_. 1) writer_allocs (Some ((s, m), {}, [Allocate])) (Some ((s, ?m), {}, [Allocate]))"
    by (rule writers_step.rest) (simp add: owns_def buffers_def writer_allocs_def free)
  moreover obtain t where rest: "schedule writer_api (\<lambda>_. 1) [0, 0] ((s, ?m), [Allocate]) = Some (t, [LogRequest 1 (7 # replicate 7 0)])"
    by (simp add: writer_api_def k_malloc_def free eval_nat_numeral)
  then have "(writers_step writer_api (\<lambda>_. 1) writer_allocs)\<^sup>*\<^sup>* (Some ((s, ?m), {}, [Allocate])) (Some (t, {}, [LogRequest 1 (7 # replicate 7 0)]))"
    by (rule schedule_reachable)
  ultimately show ?thesis
    by (intro exI [of _ t] exI [of _ "7 # replicate 7 0"]) (auto simp: request_magic_def)
qed

end
