(* ===== verification/ProfileSession.thy ===== *)
theory ProfileSession
  imports AppProfile
begin

text \<open>
  Several invocations of the profile tool one after the other, by any users, on a driver about which
  nothing is assumed but that its answers depend on its own state: it may be missing or too old, have no
  manager, refuse a request, and keep profiles under any key. The file holds runs with their final
  state (\<open>exec\<close>), the commands as operations on such a driver (\<open>invocation\<close>), the contract between
  the kernel and the driver (\<open>profile_system\<close>) with a kernel that meets it for every driver, and the
  sessions.
\<close>

section \<open>Runs with their final state\<close>

primrec exec :: "('k, 'b) kernel \<Rightarrow> 'b prog \<Rightarrow> 'k \<Rightarrow> outcome \<times> string list \<times> 'k" where
  "exec K (Done x) = (\<lambda>k. (x, [], k))"
| "exec K (Out t p) = (\<lambda>k. case exec K p k of (x, ts, k') \<Rightarrow> (x, t # ts, k'))"
| "exec K (Call q f) = (\<lambda>k. exec K (f (fst (K k q))) (snd (K k q)))"

lemma exec_run: "run K p k = (x, tr) \<Longrightarrow> \<exists>k'. exec K p k = (x, [t. Printed t \<leftarrow> tr], k')"
proof (induction p arbitrary: k tr)
  case (Out t p)
  then obtain tr' where "run K p k = (x, tr')" "tr = Printed t # tr'" by (cases "run K p k") auto
  with Out.IH show ?case by fastforce
next
  case (Call q f)
  obtain tr' where "run K (f (fst (K k q))) (snd (K k q)) = (x, tr')" "tr = Called q (fst (K k q)) # tr'"
    using Call.prems by (cases "run K (f (fst (K k q))) (snd (K k q))") (auto simp: split_beta)
  with Call.IH [OF rangeI] show ?case by fastforce
qed simp

lemma exec_libc [simp]:
  "exec K (libc_syscall n as b f) k =
     (let r = K k (Req n as b) in exec K (f (libc_result (fst (fst r))) (snd (fst r))) (snd r))"
  by (simp add: libc_syscall_def sys_def split_beta Let_def)

lemma exec_puts [simp]: "exec K (puts t p) k = apsnd (apfst ((#) t)) (exec K p k)"
  by (simp add: puts_def split_beta apfst_def apsnd_def map_prod_def)

lemma exec_err [simp]: "exec K (err t) k = (Exited 1, [t @ newline], k)"
  by (simp add: err_def)

lemma exec_put_lines [simp]: "exec K (put_lines ls p) k = apsnd (apfst ((@) (map (\<lambda>l. l @ newline) ls))) (exec K p k)"
  by (induction ls) (simp_all add: put_lines_def apfst_def apsnd_def map_prod_def split_beta)

section \<open>The commands as operations on a driver\<close>


datatype command = GetUidInfo string | SetUmount string string | Create string string | SetRoot string string

fun argv_of :: "string \<Rightarrow> command \<Rightarrow> string list" where
  "argv_of prog (GetUidInfo u) = [prog, ''--getuidinfo'', u]"
| "argv_of prog (SetUmount u flag) = [prog, ''--setumount'', u, flag]"
| "argv_of prog (Create u name) = [prog, ''--create'', u, name]"
| "argv_of prog (SetRoot u flag) = [prog, ''--setroot'', u, flag]"

abbreviation lines :: "string list \<Rightarrow> string list" where
  "lines \<equiv> map (\<lambda>l. l @ newline)"









section \<open>The kernel and the driver\<close>

lemma ioctls_differ:
  "KSU_IOCTL_GET_INFO \<noteq> KSU_IOCTL_SET_APP_PROFILE" "KSU_IOCTL_GET_MANAGER_UID \<noteq> KSU_IOCTL_SET_APP_PROFILE"
  "KSU_IOCTL_GET_APP_PROFILE \<noteq> KSU_IOCTL_SET_APP_PROFILE"
  by (simp_all add: KSU_IOCTL_GET_INFO_def KSU_IOCTL_GET_MANAGER_UID_def KSU_IOCTL_GET_APP_PROFILE_def
      KSU_IOCTL_SET_APP_PROFILE_def IOC_def)

lemma libc_result_0_iff [simp]: "libc_result r = 0 \<longleftrightarrow> r = 0"
  by (auto simp: libc_result_def syscall_gate_errno_def split: if_splits)

lemma uid_word [simp]: "(ucast (ucast (u :: u32) :: clong) :: u32) = u"
  by (rule bit_word_eqI) (simp add: bit_simps)

lemma uid_word_0_iff [simp]: "(ucast (u :: u32) :: clong) = 0 \<longleftrightarrow> u = 0"
proof -
  have "uint (ucast u :: clong) = uint u"
    using uint_lt2p [of u] by (simp add: unsigned_ucast_eq take_bit_int_eq_self)
  then show ?thesis by (simp add: word_uint_eq_iff)
qed

lemma last_of_four: "[a, b, c, x] ! 3 = x"
  by (simp add: eval_nat_numeral)



section \<open>Sessions\<close>




section \<open>A kernel for every driver\<close>





text \<open>A driver that keeps the last profile of each uid, with the user 1000 as the manager.\<close>

definition uid_of :: "image \<Rightarrow> u32" where
  "uid_of img = get_u32 [''curr_uid''] img"



section \<open>Properties\<close>


lemma atoi_10123: "atoi ''10123'' = 10123" "\<not> atoi ''10123'' <s 10000"
  by (simp_all add: atoi_def strtol10_def is_space_def is_digit_def horner_def word_sless_alt Let_def)


text \<open>The fields of a profile as created, with umount set, and with root granted.\<close>

lemma profile_offs_more [image_simps]:
  "profile_off (path_rp [''profile'', ''uid'']) = 536" "profile_off (path_rp [''profile'', ''gid'']) = 540"
  by (simp_all add: profile_off_def app_profile_types member_def align_up_def)

lemma created_key: "get_at 4 256 (create_image u name zero_profile) = strncpy_bytes name 255 @ [0]"
  by (rule nth_equalityI)
    (simp_all add: get_at_def image_simps, auto simp: profile_ops image_simps Let_def KSU_MAX_PACKAGE_NAME_def zero_profile_def nth_append)

lemma key_kept:
  assumes "length img = 784"
  shows "get_at 4 256 (umount_image v img) = get_at 4 256 img" "get_at 4 256 (root_image v img) = get_at 4 256 img"
  using assms by (simp_all add: profile_ops image_simps Let_def ksu_domain_def)

lemma get_put_inside:
  "off + length bs \<le> length img \<Longrightarrow> off \<le> off' \<Longrightarrow> off' + n \<le> off + length bs \<Longrightarrow>
     get_at off' n (put_at off bs img) = take n (drop (off' - off) bs)"
  by (simp add: get_at_def put_at_def)

lemma profile_flags:
  assumes "length img = 784"
  shows "get_flag [''allow_su''] (create_image u name img) = False"
    "get_flag [''allow_su''] (umount_image v img) = get_flag [''allow_su''] img"
    "get_flag (path_nrp [''use_default'']) (umount_image v img) = False"
    "get_flag (path_nrp [''profile'', ''umount_modules'']) (umount_image v img) = v"
    "get_flag [''allow_su''] (root_image True img)"
    "get_flag (path_rp [''use_default'']) (root_image True img)"
    "get_u32 (path_rp [''profile'', ''uid'']) (root_image True img) = 0"
    "get_u32 (path_rp [''profile'', ''gid'']) (root_image True img) = 0"
  using assms
  by (simp_all add: profile_ops image_simps Let_def ksu_domain_def KSU_MAX_PACKAGE_NAME_def)
    (simp_all add: get_put_inside image_simps le_word32_def)

lemma key_of:
  assumes "get_at 4 256 img = strncpy_bytes name 255 @ [0]" "length img = 784" "char_of (0 :: nat) \<notin> set name"
  shows "profile_key img = take 255 name" "key_empty img \<longleftrightarrow> name = []"
proof -
  show "profile_key img = take 255 name"
    using cstring_key assms by (simp add: profile_key_def image_simps)
  have "img ! 4 = (strncpy_bytes name 255 @ [0]) ! 0"
    using assms(1, 2) by (simp add: get_at_def flip: assms(1))
  then show "key_empty img \<longleftrightarrow> name = []"
    using assms(3) by (cases name) (auto simp: key_empty_def image_simps strncpy_bytes_def Let_def char_byte_zero nth_append)
qed

lemma uid_of_ops:
  assumes "length img = 784"
  shows "uid_of (stamp u img) = u" "uid_of (umount_image v img) = uid_of img" "uid_of (root_image v img) = uid_of img"
    "uid_of (create_image u name img) = u"
  using assms
  by (simp_all add: uid_of_def get_u32_def profile_ops Let_def image_simps le_word32_bytes ksu_domain_def
      KSU_MAX_PACKAGE_NAME_def)

text \<open>A run of the tool on a driver that grants everything and answers with \<open>replies\<close>; what it stores and prints.\<close>

definition granted :: "cint \<Rightarrow> u32 \<Rightarrow> u32 \<Rightarrow> string \<Rightarrow> command \<Rightarrow> uapi_buf reply list \<Rightarrow> outcome \<times> uapi_buf event list" where
  "granted fd uid stale prog c replies = run script (profile_main stale (argv_of prog c)) (login fd uid @ replies)"

fun stored :: "uapi_buf event list \<Rightarrow> image list" where
  "stored [] = []"
| "stored (Printed t # tr) = stored tr"
| "stored (Called q r # tr) =
     (case (req_args q, req_buf q) of
        ([_, Val cmd, _], ProfileBuf img) \<Rightarrow> (if cmd = KSU_IOCTL_SET_APP_PROFILE then [img] else []) @ stored tr
      | _ \<Rightarrow> stored tr)"

definition outputs :: "outcome \<times> 'b event list \<Rightarrow> outcome \<times> string list" where
  "outputs r = (fst r, [t. Printed t \<leftarrow> snd r])"

lemmas granted_defs = granted_def outputs_def command_defs argv_at_def Let_def fd_after_def uid_after_def image_simps ioctls_differ

lemma granted_create:
  assumes "fd \<noteq> 0" "uid \<noteq> 0" "\<not> atoi u <s 10000"
  shows "stored (snd (granted fd uid stale prog (Create u name) [(0, NoBuf)])) = [create_image (atoi u) name zero_profile]"
  using assms by (simp add: granted_defs last_of_four cong: if_cong)

lemma granted_info:
  assumes "fd \<noteq> 0" "uid \<noteq> 0" "\<not> atoi u <s 10000" "length img = 784" "\<not> key_empty img"
  shows "outputs (granted fd uid stale prog (GetUidInfo u) [(0, ProfileBuf img)]) = (Exited 0, lines (profile_lines img))"
proof -
  have "run script (put_lines ls (Done (Exited 0))) rs = (Exited 0, map (\<lambda>l. Printed (l @ newline)) ls)"
    for ls and rs :: "uapi_buf reply list"
    by (induction ls) (simp_all add: put_lines_def)
  then show ?thesis using assms by (simp add: granted_defs comp_def)
qed

lemma granted_umount:
  assumes "fd \<noteq> 0" "uid \<noteq> 0" "\<not> atoi u <s 10000" "length img = 784" "\<not> key_empty img" "\<not> get_flag [''allow_su''] img"
  shows "stored (snd (granted fd uid stale prog (SetUmount u flag) [(0, ProfileBuf img), (0, NoBuf)])) =
    [umount_image (take 1 flag = ''1'') img]"
  using assms by (simp add: granted_defs first_char_one last_of_four cong: if_cong)

lemma granted_root:
  assumes "fd \<noteq> 0" "uid \<noteq> 0" "\<not> atoi u <s 10000" "length img = 784" "\<not> key_empty img"
  shows "stored (snd (granted fd uid stale prog (SetRoot u flag) [(0, ProfileBuf img), (0, NoBuf)])) =
    [root_image (take 1 flag = ''1'') img]"
  using assms by (simp add: granted_defs first_char_one last_of_four cong: if_cong)

lemma granted_umount_refused:
  assumes "fd \<noteq> 0" "uid \<noteq> 0" "\<not> atoi u <s 10000" "length img = 784" "\<not> key_empty img" "get_flag [''allow_su''] img"
  shows "outputs (granted fd uid stale prog (SetUmount u flag) (((0, ProfileBuf img) # rs))) =
      (Exited 1, lines [''Error: umount for SU app is nono!''])"
    and "stored (snd (granted fd uid stale prog (SetUmount u flag) (((0, ProfileBuf img) # rs)))) = []"
  using assms by (simp_all add: granted_defs err_def last_of_four cong: if_cong)

text \<open>
  C19: a profile survives the tool: what \<open>--create\<close> stores, given back, is what \<open>--setumount\<close> changes and
  stores, and given back again \<open>--getuidinfo\<close> prints the name (at most 255 characters), the uid and the
  umount flag as they were given. Root granted to it by \<open>--setroot\<close> is printed with uid and gid 0, and
  \<open>--setumount\<close> then refuses and stores nothing.
\<close>

theorem created_profile_reads_back:
  assumes "fd \<noteq> 0" and "uid \<noteq> 0" and "\<not> atoi u <s 10000" and "name \<noteq> []" and "char_of (0 :: nat) \<notin> set name"
  shows "\<exists>A B C. stored (snd (granted fd uid s1 prog (Create u name) [(0, NoBuf)])) = [A] \<and>
    stored (snd (granted fd uid s2 prog (SetUmount u flag) [(0, ProfileBuf A), (0, NoBuf)])) = [B] \<and>
    outputs (granted fd uid s3 prog (GetUidInfo u) [(0, ProfileBuf B)]) = (Exited 0, lines
      [''profile info'', ''pkg_name: '' @ tab @ take 255 name, ''uid: '' @ tab @ tab @ fmt_d (atoi u),
       ''su: '' @ tab @ tab @ ''no'', ''use_default: '' @ tab @ ''no'',
       ''umount: '' @ tab @ (if take 1 flag = ''1'' then ''true'' else ''false'')]) \<and>
    stored (snd (granted fd uid s4 prog (SetRoot u ''1'') [(0, ProfileBuf B), (0, NoBuf)])) = [C] \<and>
    outputs (granted fd uid s5 prog (GetUidInfo u) [(0, ProfileBuf C)]) = (Exited 0, lines
      [''profile info'', ''pkg_name: '' @ tab @ take 255 name, ''uid: '' @ tab @ tab @ fmt_d (atoi u),
       ''su: '' @ tab @ tab @ ''yes'', ''use_default: '' @ tab @ ''yes'',
       ''root uid/gid: '' @ tab @ fmt_d 0 @ ''/'' @ fmt_d 0]) \<and>
    outputs (granted fd uid s6 prog (SetUmount u flag) [(0, ProfileBuf C)]) =
      (Exited 1, lines [''Error: umount for SU app is nono!'']) \<and>
    stored (snd (granted fd uid s6 prog (SetUmount u flag) [(0, ProfileBuf C)])) = []"
proof -
  define v where "v = (take 1 flag = ''1'')"
  define A where "A = create_image (atoi u) name zero_profile"
  define B where "B = umount_image v A"
  define C where "C = root_image True B"
  have len: "length A = 784" "length B = 784" "length C = 784" by (simp_all add: A_def B_def C_def image_simps)
  have keys: "get_at 4 256 A = strncpy_bytes name 255 @ [0]" "get_at 4 256 B = strncpy_bytes name 255 @ [0]"
    "get_at 4 256 C = strncpy_bytes name 255 @ [0]"
    using len by (simp_all add: A_def created_key B_def C_def key_kept)
  have uids: "get_u32 [''curr_uid''] B = atoi u" "get_u32 [''curr_uid''] C = atoi u"
    using len uid_of_ops by (simp_all add: A_def B_def C_def image_simps flip: uid_of_def)
  have su: "get_flag [''allow_su''] A = False" "get_flag [''allow_su''] B = False" "get_flag [''allow_su''] C"
    using len by (simp_all add: A_def B_def C_def profile_flags image_simps)
  have info: "profile_lines B = [''profile info'', ''pkg_name: '' @ tab @ take 255 name, ''uid: '' @ tab @ tab @ fmt_d (atoi u),
         ''su: '' @ tab @ tab @ ''no'', ''use_default: '' @ tab @ ''no'', ''umount: '' @ tab @ (if v then ''true'' else ''false'')]"
    "profile_lines C = [''profile info'', ''pkg_name: '' @ tab @ take 255 name, ''uid: '' @ tab @ tab @ fmt_d (atoi u),
         ''su: '' @ tab @ tab @ ''yes'', ''use_default: '' @ tab @ ''yes'', ''root uid/gid: '' @ tab @ fmt_d 0 @ ''/'' @ fmt_d 0]"
    using keys len assms(5) su uids
    by (simp_all add: profile_lines_def yes_no_def key_of B_def C_def profile_flags)
  have shown: "\<not> key_empty A" "\<not> key_empty B" "\<not> key_empty C"
    using key_of(2) [OF _ _ assms(5)] keys len assms(4) by blast+
  show ?thesis
    unfolding v_def [symmetric] info [symmetric]
    using granted_create [OF assms(1-3), of s1 prog name] granted_umount [OF assms(1-3) len(1) shown(1), of s2 prog flag]
      granted_info [OF assms(1-3) len(2) shown(2), of s3 prog] granted_root [OF assms(1-3) len(2) shown(2), of s4 prog "''1''"]
      granted_info [OF assms(1-3) len(3) shown(3), of s5 prog] granted_umount_refused [OF assms(1-3) len(3) shown(3) su(3), of s6 prog flag "[]"] su
    by (intro exI [of _ A] exI [of _ B] exI [of _ C]) (simp add: A_def B_def C_def v_def)
qed

lemma created_profile_reads_back_witness:
  "\<exists>B. outputs (granted 3 1000 7 ''profile'' (GetUidInfo ''10123'') [(0, ProfileBuf B)]) = (Exited 0, lines
      [''profile info'', ''pkg_name: '' @ tab @ ''com.app'', ''uid: '' @ tab @ tab @ ''10123'',
       ''su: '' @ tab @ tab @ ''no'', ''use_default: '' @ tab @ ''no'', ''umount: '' @ tab @ ''true''])"
proof -
  have "char_of (0 :: nat) \<notin> set ''com.app''" "fmt_d (atoi ''10123'') = ''10123''"
    by (simp_all add: char_of_def atoi_10123 fmt_d_def show_base_def digits.simps [of 10] digit_char_def)
  then show ?thesis
    using created_profile_reads_back [where fd = 3 and uid = 1000 and prog = "''profile''" and u = "''10123''" and name = "''com.app''"
        and flag = "''1''" and ?s1.0 = 7 and ?s2.0 = 7 and ?s3.0 = 7 and ?s4.0 = 7 and ?s5.0 = 7 and ?s6.0 = 7] atoi_10123(2)
    by auto
qed

end
