(* ===== verification/Spec2Isabelle.thy ===== *)
theory Spec2Isabelle
  imports HashTable ModuleLife Process BenchFork TimingAbuse Sulog SmallTests KernelHeader KsymWriters ProfileSession
begin

text \<open>
  \<^bold>\<open>Verification of the C programs of the repository various\_stuff.\<close>

  The repository is a collection of small C programs around the Linux kernel, Android and KernelSU:
  freestanding programs with a runtime of their own, tools that talk to the KernelSU driver, a kernel
  module template, benchmarks and timing experiments, a hash with a demonstration, and byte level
  exercises. The programs share little code; what they share is the runtime header
  (\<open>small_rt.h\<close>, in several copies) and the way they meet the outside: system calls, a driver that
  fills buffers, memory with bounds.

  \<^bold>\<open>Foundations.\<close>

  \<^item> \<open>Prelude\<close>: integer types at their widths, reads of an object that are \<open>None\<close> outside it.
  \<^item> \<open>Digits\<close>: numbers as text in a base, and reading them back; the locale \<open>decimal_writer\<close> is the
    contract of the two fixed-width decimal writers (\<open>long_to_str\<close> of the benchmarks, the digit loop of
    the version probe) and is interpreted on both.
  \<^item> \<open>CLayout\<close>: sizes, alignments and field offsets of C types, byte images of objects.
  \<^item> \<open>Effects\<close>: user programs as interaction trees (print, call, end) and \<open>run\<close>, their execution
    against an arbitrary kernel, which gives the outcome and the trace of calls with their replies.
    A logic over all replies (\<open>verified\<close>) and protocols over traces (\<open>conforms\<close>) carry the proofs; the
    C library conversions the programs use are here too.
  \<^item> \<open>Binary64\<close>: rounding and the operations of \<open>double\<close> that the timing programs use, with the
    comparisons of C as an instance of the class \<open>ord\<close>.

  \<^bold>\<open>Components.\<close>

  \<^item> \<open>ChibiHash\<close> (\<open>hashing/chibihash64.h\<close>): the loops of the hash over a bounded key; the hash is
    always defined and equals a block-wise reference, its finish is a bijection.
  \<^item> \<open>HashTable\<close> (\<open>hashing/test.c\<close>): the growing array as a record of cells and count; it refines a
    duplicate-free list (the locale \<open>total_hash\<close> is interpreted on the hash), every table reachable by
    insertions with any allocation results is well formed, and what a failed \<open>realloc\<close> leaves.
  \<^item> \<open>SmallRt\<close> (the \<open>small_rt.h\<close> copies): registers and memory words of four architectures, the
    inline assembly block by block, the errno gate, the argument-counting macro, \<open>__start\<close> and
    \<open>prep_main\<close>. The locale \<open>syscall_abi\<close> states the calling convention of the kernel and is interpreted
    on each block.
  \<^item> \<open>Process\<close>: from the stack image and the strings of the kernel over the entry point to the C
    program that runs with exactly these strings.
  \<^item> \<open>AppProfile\<close> (\<open>kernelsu/ksu_uapi/\<close>): the profile structures as byte images, the tool with its
    four commands and the probe \<open>uapi.c\<close>; the tool refines a protocol of authorisation steps and one store.
  \<^item> \<open>ProfileSession\<close>: invocations of the tool one after the other, by any users. A driver is a record of
    what it answers in each of its states, refusals included, and the tool is four operations on that state.
    The locale \<open>profile_system\<close> ties kernel, users and driver together and is interpreted on a kernel that
    is built for any driver. What one command stores is printed or changed by the next as it was given.
  \<^item> \<open>SuperUser\<close> (\<open>kernelsu/tinyfs_su/\<close>, \<open>small_start_tests/small_su.c\<close>): no new image without a grant.
  \<^item> \<open>Interleaving\<close>: several processes on one kernel, as a small-step relation with \<open>clone\<close>; the locale
    \<open>process_invariant\<close> lifts what one program keeps to all interleavings, and a process that is given
    a new image has a grant of its own, whatever the others do.
  \<^item> \<open>BenchFork\<close>: the benchmarks as such systems; parent and child of their check for seccomp.
  \<^item> \<open>KsuTools\<close> (\<open>kernelsu/ksu_fd/\<close>, \<open>kernelsu/ksu_prctl_test/\<close>): the descriptor and prctl probes.
  \<^item> \<open>StartDemos\<close> (\<open>hello_world/\<close>, \<open>small_start/\<close>, \<open>small_start_tests/\<close>, \<open>ksu_preinit_demo/src/hello3.c\<close>): what
    the demonstrations write, and the umount list reader over its packed string table.
  \<^item> \<open>LkmTemplate\<close> (\<open>lkm_template/main.c\<close>): the module over a record of kernel functions
    (\<open>kernel_api\<close>) and a record of its own static pointers and log (\<open>lkm\<close>).
  \<^item> \<open>ModuleLife\<close> (\<open>ksu_preinit_demo/lkm_src/lkm_hello.c\<close>): the hello module, and a loader as a step relation
    with a different kernel at every load. The contract \<open>kernel_module\<close> is interpreted on both modules: the
    template never stays resident and never leaves a kprobe behind.
  \<^item> \<open>Scopes\<close> (\<open>lkm_template/kernel.h\<close>, \<open>proc_ops/\<close>, \<open>cleanup_defer/example.c\<close>): scope-bound release. The
    locales \<open>exclusive_lock\<close> and \<open>kernel_heap\<close>, both sublocales of \<open>scoped_resource\<close>, state what the
    code relies on and are interpreted on a kernel with held locks and live allocations. The datatype \<open>code\<close> is
    code with nested scopes that may be left at any statement (\<open>exit\<close>); the locale \<open>hooked_file\<close> is a kernel
    with the handler in the write slot of a file, on which client and handler run together.
  \<^item> \<open>KsymWriters\<close> (\<open>proc_ops/proc_kallsyms_test.h\<close>): the write handler in its steps, which are the function of
    \<open>Scopes\<close>, and any number of writers at once with an environment that may change everything but their
    buffers. The contract \<open>writer_kernel\<close> is interpreted on a kernel with a user memory per writer.
  \<^item> \<open>KernelHeader\<close> (\<open>lkm_template/kernel.h\<close>): the macros of the header that compute.
  \<^item> \<open>SyscallBench\<close> (\<open>syscall_shit/syscall_bench*\<close>): the benchmarks in their 64-bit and ARM builds
    (\<open>build\<close>), decimal printing by hand, and a logic that counts calls.
  \<^item> \<open>TimingAbuse\<close> (\<open>kernelsu/prctl_abuse/\<close>, \<open>syscall_shit/stat_abuse/\<close>): sampling, medians and the
    verdict; the comparator's contract with \<open>qsort\<close> is the locale \<open>c_comparator\<close>.
  \<^item> \<open>Sulog\<close> (\<open>sulog_test/\<close>): a log ring read from its oldest entry.
  \<^item> \<open>ByteTricks\<close> (\<open>c_shit/\<close>), \<open>Probes\<close> (\<open>move_mount/\<close>, \<open>fs_magic/\<close>, the back-port tests),
    \<open>SmallTests\<close> (\<open>syscall_test.c\<close>, \<open>test_stat/\<close>, \<open>sucompat_test.c\<close>, \<open>ksu_fd_test.c\<close>, \<open>tests/hello-c.c\<close>).
\<close>

text \<open>
  \<^bold>\<open>How the model relates to the code.\<close> A function of the C code is a definition of the same name where
  Isabelle allows it, a \<open>main\<close> is \<open><program>_main\<close>. Integers keep their width (\<open>cint\<close>, \<open>clong\<close>,
  \<open>u64\<close>), conversions are \<open>ucast\<close> and \<open>scast\<close>; counts and lengths that the code keeps below the size of
  its objects are natural numbers. Every early return, trap and
  failed call is a branch. An access outside an object, through a null pointer or to a cell that was
  never written, and a signed overflow, are values of the model (\<open>None\<close>, \<open>Faulted\<close>, \<open>table_fault\<close>), so a
  theorem that a program ends otherwise excludes them.

  \<^bold>\<open>Parameters.\<close> Every theorem about a user program holds for an arbitrary kernel, a state
  transformer that answers a call with a word and the buffer after the call; what a property needs of
  its answers is a hypothesis. The kernel of the module is the record
  \<open>kernel_api\<close>. Parameters are also the text of \<open>strerror\<close>, the addresses \<open>%p\<close> prints, the results of
  allocations, the content of uninitialised storage, \<open>ksu_write_to_readonly_slot\<close> (not in the
  repository), the numbers of the calls that end a process, and the ring the driver of \<open>Sulog\<close> fills. The KernelSU
  driver is not in the repository: the profile sessions hold for every driver (\<open>'d driver\<close>), and of the kernel they
  rely on the documented \<open>getuid\<close> and \<open>setuid\<close>.

  \<^bold>\<open>Loops.\<close> The loops are recursive functions with a termination proof; the walks over unknown memory
  in \<open>Process\<close> are partial functions whose result \<open>Some\<close> is proved. The module's loops run for the
  code's own bounds: \<open>max_iter\<close> (400000 rings around the anchor), \<open>max_tries\<close> (512, of which the
  code examines 513), and the hunt for \<open>adrp\<close> instructions between two addresses, which takes fuel: the number of
  instructions in the range plus two is enough when the range does not wrap (\<open>hunt_bounded\<close>). Benchmarks run 1000000 iterations, the timing programs 1000 samples of
  8 calls; their theorems are proved for every count by induction.

  \<^bold>\<open>Limits of the model.\<close> \<open>double\<close> has an unbounded exponent below and no negative zero (no operation of
  the programs reaches either). Layouts and user programs are LP64 little-endian, except the ARM build of
  the benchmarks and the word-size generic runtime. Processes interleave
  with separate memories (\<open>Interleaving\<close>); other threads of the client of the
  kallsyms handler are steps of the environment in \<open>KsymWriters\<close>. Signals and the vDSO are not modelled:
  \<open>clock_gettime\<close> is a call; a value that is not a number prints as \<open>nan\<close> without a sign.
  Arguments of a call that the kernel does not read are left out.

  \<^bold>\<open>Not modelled.\<close> The feature tests, attributes and renamings of \<open>kernel.h\<close>, which have no run-time
  meaning; the Zig program, shell scripts, patches, firmware images and
  documents of the repository.
\<close>

end
